theory Spec2Isabelle
  imports Complex_Main
begin

section \<open>Values, documents and exceptions\<close>

text \<open>
  The pinger of \<^verbatim>\<open>app.py\<close> reads monitor documents from Firestore, decides which are due,
  probes each due URL and writes the status back.  A field of a document is a Python value.
  \<open>PyTimestamp t\<close> is the store's own timestamp object (the only value with a
  \<^verbatim>\<open>timestamp()\<close> method; \<open>t\<close> is what the method returns) and \<open>PySentinel\<close> is
  \<^verbatim>\<open>firestore.SERVER_TIMESTAMP\<close>, an opaque marker object without attributes or arithmetic.
  Python floats are idealised as reals (no rounding, no NaN, no infinities); arrays, maps,
  bytes, references and geo points are not modelled.
\<close>

datatype pyval =
    PyNone
  | PyBool bool
  | PyInt int
  | PyFloat real
  | PyStr string
  | PyTimestamp real
  | PySentinel

datatype exn =
    TypeError
  | ValueError
  | NotFound
  | StoreUnavailable
  | OtherError

type_synonym document = "string \<rightharpoonup> pyval"

type_synonym ref = "string \<times> string"

record snapshot =
  reference :: ref
  to_dict :: document

definition SERVER_TIMESTAMP :: pyval where
  "SERVER_TIMESTAMP = PySentinel"

definition dict_get :: "document \<Rightarrow> string \<Rightarrow> pyval \<Rightarrow> pyval" where
  "dict_get d k dflt = (case d k of None \<Rightarrow> dflt | Some v \<Rightarrow> v)"

fun hasattr_timestamp :: "pyval \<Rightarrow> bool" where
  "hasattr_timestamp (PyTimestamp t) = True"
| "hasattr_timestamp v = False"

fun timestamp :: "pyval \<Rightarrow> real" where
  "timestamp (PyTimestamp t) = t"
| "timestamp v = 0"

text \<open>Truth value of a Python object, as \<^verbatim>\<open>not url\<close> tests it.\<close>

fun truthy :: "pyval \<Rightarrow> bool" where
  "truthy PyNone = False"
| "truthy (PyBool b) = b"
| "truthy (PyInt n) = (n \<noteq> 0)"
| "truthy (PyFloat r) = (r \<noteq> 0)"
| "truthy (PyStr s) = (s \<noteq> [])"
| "truthy (PyTimestamp t) = True"
| "truthy PySentinel = True"

subsection \<open>The builtin \<^verbatim>\<open>int()\<close>\<close>

text \<open>
  A string converts when, stripped of surrounding white space, it is an optional sign and
  decimal digits, single underscores allowed between digits.  The white space that
  \<^verbatim>\<open>int()\<close> skips in an ASCII string is the space and the characters 9 to 13 (tab, line
  feed, vertical tab, form feed, carriage return).  Strings are ASCII strings here: the
  white space and the digits of Unicode beyond ASCII, which \<^verbatim>\<open>int()\<close> accepts too, are
  outside the model, and the length limit that recent Python versions put on the conversion
  is left out.
\<close>

definition is_space :: "char \<Rightarrow> bool" where
  "is_space c = (let n = of_char c :: nat in (9 \<le> n \<and> n \<le> 13) \<or> n = 32)"

definition is_digit :: "char \<Rightarrow> bool" where
  "is_digit c = (let n = of_char c :: nat in 48 \<le> n \<and> n \<le> 57)"

definition digit_of :: "char \<Rightarrow> nat" where
  "digit_of c = of_char c - 48"

definition strip :: "string \<Rightarrow> string" where
  "strip s = rev (dropWhile is_space (rev (dropWhile is_space s)))"

fun digits_value :: "nat \<Rightarrow> string \<Rightarrow> nat option" where
  "digits_value acc [] = None"
| "digits_value acc [c] = (if is_digit c then Some (10 * acc + digit_of c) else None)"
| "digits_value acc (c # d # ds) =
     (if \<not> is_digit c then None
      else if d = CHR ''_'' then digits_value (10 * acc + digit_of c) ds
      else digits_value (10 * acc + digit_of c) (d # ds))"

definition int_of_str :: "string \<Rightarrow> exn + int" where
  "int_of_str s =
     (case strip s of
        [] \<Rightarrow> Inl ValueError
      | c # cs \<Rightarrow>
          if c = CHR ''+'' then
            (case digits_value 0 cs of None \<Rightarrow> Inl ValueError | Some n \<Rightarrow> Inr (int n))
          else if c = CHR ''-'' then
            (case digits_value 0 cs of None \<Rightarrow> Inl ValueError | Some n \<Rightarrow> Inr (- int n))
          else
            (case digits_value 0 (c # cs) of None \<Rightarrow> Inl ValueError | Some n \<Rightarrow> Inr (int n)))"

text \<open>\<^verbatim>\<open>int(x)\<close>: a float is truncated towards zero, a string is parsed, an object that is
  neither a number nor a string raises \<^verbatim>\<open>TypeError\<close>.\<close>

fun py_int :: "pyval \<Rightarrow> exn + int" where
  "py_int (PyInt n) = Inr n"
| "py_int (PyBool b) = Inr (if b then 1 else 0)"
| "py_int (PyFloat r) = Inr (if 0 \<le> r then \<lfloor>r\<rfloor> else \<lceil>r\<rceil>)"
| "py_int (PyStr s) = int_of_str s"
| "py_int PyNone = Inl TypeError"
| "py_int (PyTimestamp t) = Inl TypeError"
| "py_int PySentinel = Inl TypeError"

text \<open>
  \<^verbatim>\<open>time.time() - x\<close>, the left operand a float: defined for numbers only.  The
  difference is the exact one here.  Python turns an integer operand into a double and
  rounds the difference to the nearest double; the two agree wherever the operands and
  their exact difference are doubles, and the statements that depend on it say so.
\<close>

fun as_number :: "pyval \<Rightarrow> real option" where
  "as_number (PyInt n) = Some (real_of_int n)"
| "as_number (PyFloat r) = Some r"
| "as_number (PyBool b) = Some (if b then 1 else 0)"
| "as_number v = None"

definition float_sub :: "real \<Rightarrow> pyval \<Rightarrow> exn + real" where
  "float_sub now v = (case as_number v of None \<Rightarrow> Inl TypeError | Some x \<Rightarrow> Inr (now - x))"

section \<open>The due-set selection (lines 42--53)\<close>

text \<open>
  What iterating \<^verbatim>\<open>stream()\<close> gives: items one after the other, then the end of the
  stream or an exception of the store.
\<close>

datatype 'a pystream = Done | Raise exn | Yield 'a "'a pystream"

text \<open>Lines 47--52 for one monitor; \<open>now\<close> is what \<^verbatim>\<open>time.time()\<close> returns on line 52.\<close>

definition last_checked_of :: "document \<Rightarrow> pyval" where
  "last_checked_of monitor_data =
     (let last_checked = dict_get monitor_data ''lastChecked'' SERVER_TIMESTAMP
      in if hasattr_timestamp last_checked then PyFloat (timestamp last_checked)
         else last_checked)"

definition interval_of :: "document \<Rightarrow> exn + int" where
  "interval_of monitor_data = py_int (dict_get monitor_data ''interval'' (PyInt 60))"

definition check_due :: "real \<Rightarrow> snapshot \<Rightarrow> exn + bool" where
  "check_due now monitor =
     (let monitor_data = to_dict monitor;
          last_checked = last_checked_of monitor_data
      in case interval_of monitor_data of
           Inl e \<Rightarrow> Inl e
         | Inr interval \<Rightarrow>
             (case float_sub now last_checked of
                Inl e \<Rightarrow> Inl e
              | Inr elapsed \<Rightarrow> Inr (elapsed > real_of_int interval)))"

text \<open>
  The two nested loops.  The state threaded through them is the number of calls of
  \<^verbatim>\<open>time.time()\<close> made so far (the clock is read once for each monitor, and \<open>clock k\<close> is
  the reading of call \<open>k\<close>) and the list \<^verbatim>\<open>monitors_to_check\<close>.
\<close>

fun scan_monitors ::
  "(nat \<Rightarrow> real) \<Rightarrow> nat \<times> snapshot list \<Rightarrow> snapshot pystream \<Rightarrow> exn + nat \<times> snapshot list"
where
  "scan_monitors clock st Done = Inr st"
| "scan_monitors clock st (Raise e) = Inl e"
| "scan_monitors clock (k, monitors_to_check) (Yield monitor rest) =
     (case check_due (clock k) monitor of
        Inl e \<Rightarrow> Inl e
      | Inr due \<Rightarrow>
          scan_monitors clock
            (Suc k, if due then monitors_to_check @ [monitor] else monitors_to_check) rest)"

fun scan_users ::
  "(nat \<Rightarrow> real) \<Rightarrow> nat \<times> snapshot list \<Rightarrow> snapshot pystream pystream
    \<Rightarrow> exn + nat \<times> snapshot list"
where
  "scan_users clock st Done = Inr st"
| "scan_users clock st (Raise e) = Inl e"
| "scan_users clock st (Yield monitors_ref rest) =
     (case scan_monitors clock st monitors_ref of
        Inl e \<Rightarrow> Inl e
      | Inr st' \<Rightarrow> scan_users clock st' rest)"

section \<open>Probing and writing back (lines 55--72)\<close>

text \<open>
  What \<^verbatim>\<open>requests.get\<close> does: it returns a response with a status code, raises a
  \<^verbatim>\<open>requests.RequestException\<close> (\<open>ConnectionError\<close> for a refused connection or a name
  that does not resolve, \<open>Timeout\<close> when the 10 seconds pass, \<open>SSLError\<close>, and the
  others), or lets an exception of another class escape.
\<close>

datatype request_exception = ConnectionError | Timeout | SSLError | OtherRequestException

datatype http_outcome =
    Response int
  | RequestException request_exception
  | Escapes exn

text \<open>\<^verbatim>\<open>Response.ok\<close> of the requests library: \<^verbatim>\<open>raise_for_status()\<close> does not raise, and
  it raises for the client and server error codes, \<^verbatim>\<open>400 <= status_code < 600\<close>.\<close>

definition response_ok :: "int \<Rightarrow> bool" where
  "response_ok status_code = (\<not> (400 \<le> status_code \<and> status_code < 600))"

text \<open>Lines 59--66: the status, or the exception that leaves the inner \<^verbatim>\<open>try\<close>.\<close>

definition probe :: "http_outcome \<Rightarrow> exn + string" where
  "probe r =
     (case r of
        Response status_code \<Rightarrow> Inr (if response_ok status_code then ''up'' else ''down'')
      | RequestException x \<Rightarrow> Inr ''down''
      | Escapes e \<Rightarrow> Inl e)"

text \<open>
  The surroundings of one cycle: the clock, what the streams of the store yield, the
  network, the store's own faults on a write (it may be unreachable) and the time the
  store stamps on a write.  The network and the store answer for the monitor they are
  asked about.
\<close>

record env =
  clock :: "nat \<Rightarrow> real"
  users_stream :: "snapshot pystream pystream"
  requests_get :: "ref \<Rightarrow> pyval \<Rightarrow> http_outcome"
  update_fault :: "ref \<Rightarrow> exn option"
  server_time :: "ref \<Rightarrow> real"

datatype log_entry = Pinged pyval string | LoopError exn

text \<open>
  What the worker acts on and leaves behind: the documents of the store as they are when
  the writes arrive, the requests sent, the updates that went through, the log and the
  seconds slept.  The request handlers of the application run beside the worker; of what
  they do the model keeps this much: a snapshot need not agree with the documents, and a
  monitor deleted after the enumeration is a snapshot whose document is not there.
\<close>

record world =
  documents :: "ref \<rightharpoonup> document"
  probes :: "ref list"
  writes :: "(ref \<times> document) list"
  log :: "log_entry list"
  slept :: "nat list"

definition status_fields :: "string \<Rightarrow> document" where
  "status_fields status = [''status'' \<mapsto> PyStr status, ''lastChecked'' \<mapsto> SERVER_TIMESTAMP]"

text \<open>The store replaces the marker by its own time when it applies a write.\<close>

definition resolve :: "real \<Rightarrow> document \<Rightarrow> document" where
  "resolve t payload =
     (\<lambda>k. case payload k of
            None \<Rightarrow> None
          | Some v \<Rightarrow> Some (if v = PySentinel then PyTimestamp t else v))"

text \<open>\<^verbatim>\<open>reference.update(payload)\<close>: fails on a document that does not exist, otherwise
  overwrites the given fields and keeps the others.\<close>

definition update ::
  "env \<Rightarrow> (ref \<rightharpoonup> document) \<Rightarrow> ref \<Rightarrow> document \<Rightarrow> exn + (ref \<rightharpoonup> document)"
where
  "update e docs r payload =
     (case update_fault e r of
        Some x \<Rightarrow> Inl x
      | None \<Rightarrow>
          (case docs r of
             None \<Rightarrow> Inl NotFound
           | Some d \<Rightarrow> Inr (docs(r \<mapsto> d ++ resolve (server_time e r) payload))))"

text \<open>The body of the second loop for one monitor, with the exception it raises, if any.\<close>

definition ping_monitor :: "env \<Rightarrow> world \<Rightarrow> snapshot \<Rightarrow> world \<times> exn option" where
  "ping_monitor e w monitor =
     (let monitor_data = to_dict monitor;
          url = dict_get monitor_data ''url'' PyNone
      in if \<not> truthy url then (w, None)
         else
           let w1 = w\<lparr>probes := probes w @ [reference monitor]\<rparr>
           in case probe (requests_get e (reference monitor) url) of
                Inl x \<Rightarrow> (w1, Some x)
              | Inr status \<Rightarrow>
                  (case update e (documents w1) (reference monitor) (status_fields status) of
                     Inl x \<Rightarrow> (w1, Some x)
                   | Inr docs \<Rightarrow>
                       (w1\<lparr>documents := docs,
                           writes := writes w1 @ [(reference monitor, status_fields status)],
                           log := log w1 @ [Pinged url status]\<rparr>, None)))"

fun dispatch :: "env \<Rightarrow> world \<Rightarrow> snapshot list \<Rightarrow> world \<times> exn option" where
  "dispatch e w [] = (w, None)"
| "dispatch e w (monitor # rest) =
     (case ping_monitor e w monitor of
        (w', Some x) \<Rightarrow> (w', Some x)
      | (w', None) \<Rightarrow> dispatch e w' rest)"

section \<open>The worker's loop (lines 36--76)\<close>

text \<open>The \<^verbatim>\<open>try\<close> block with its handler, which logs whatever was raised.\<close>

definition cycle :: "env \<Rightarrow> world \<Rightarrow> world" where
  "cycle e w =
     (case scan_users (clock e) (0, []) (users_stream e) of
        Inl x \<Rightarrow> w\<lparr>log := log w @ [LoopError x]\<rparr>
      | Inr (k, monitors_to_check) \<Rightarrow>
          (case dispatch e w monitors_to_check of
             (w', Some x) \<Rightarrow> w'\<lparr>log := log w' @ [LoopError x]\<rparr>
           | (w', None) \<Rightarrow> w'))"

text \<open>One pass of \<^verbatim>\<open>while True\<close>; \<open>db\<close> tells whether the client was initialised.\<close>

definition pinger_iteration :: "bool \<Rightarrow> env \<Rightarrow> world \<Rightarrow> world" where
  "pinger_iteration db e w =
     (if \<not> db then w\<lparr>slept := slept w @ [60]\<rparr>
      else let w' = cycle e w in w'\<lparr>slept := slept w' @ [5]\<rparr>)"

text \<open>The loop never ends by itself; it is run here for as many passes as there are
  surroundings in the list.\<close>

fun pinger_worker :: "bool \<Rightarrow> env list \<Rightarrow> world \<Rightarrow> world" where
  "pinger_worker db [] w = w"
| "pinger_worker db (e # es) w = pinger_worker db es (pinger_iteration db e w)"

text \<open>Lines 78--80: the thread is started only with an initialised client.\<close>

definition start_pinger :: "bool \<Rightarrow> env list \<Rightarrow> world \<Rightarrow> world" where
  "start_pinger db es w = (if db then pinger_worker db es w else w)"

section \<open>Vocabulary of the statements\<close>

text \<open>The items a stream gives before it ends, how it ends, the monitors the two nested
  loops meet when no stream fails, and whether some stream of the enumeration fails.\<close>

fun yielded :: "'a pystream \<Rightarrow> 'a list" where
  "yielded Done = []"
| "yielded (Raise e) = []"
| "yielded (Yield x rest) = x # yielded rest"

fun ending :: "'a pystream \<Rightarrow> exn option" where
  "ending Done = None"
| "ending (Raise e) = Some e"
| "ending (Yield x rest) = ending rest"

definition enumerated :: "'a pystream pystream \<Rightarrow> 'a list" where
  "enumerated users = concat (map yielded (yielded users))"

fun stream_fails :: "'a pystream pystream \<Rightarrow> bool" where
  "stream_fails Done = False"
| "stream_fails (Raise e) = True"
| "stream_fails (Yield s rest) = (case ending s of Some x \<Rightarrow> True | None \<Rightarrow> stream_fails rest)"

text \<open>Each monitor with the number of the clock reading made for it, and the monitors that
  the comparison of line 52 lets through.\<close>

definition stamped :: "nat \<Rightarrow> 'a list \<Rightarrow> ('a \<times> nat) list" where
  "stamped k xs = zip xs [k..<k + length xs]"

definition selected :: "(nat \<Rightarrow> real) \<Rightarrow> nat \<Rightarrow> snapshot list \<Rightarrow> snapshot list" where
  "selected clk k ms = map fst (filter (\<lambda>(m, i). check_due (clk i) m = Inr True) (stamped k ms))"

text \<open>The test of line 58.\<close>

definition has_url :: "snapshot \<Rightarrow> bool" where
  "has_url monitor = truthy (dict_get (to_dict monitor) ''url'' PyNone)"

text \<open>The finite values of a Python float (binary64): a mantissa of at most 53 bits and
  an exponent from -1074 to 971.\<close>

definition is_double :: "real \<Rightarrow> bool" where
  "is_double x =
     (\<exists>m e :: int. \<bar>m\<bar> < 2 ^ 53 \<and> - 1074 \<le> e \<and> e \<le> 971
        \<and> x = real_of_int m * 2 powr real_of_int e)"

text \<open>The body of the second loop goes through for the monitor and records the status
  \<open>s\<close>: in the payload it sends and in the stored document.\<close>

definition records_status :: "env \<Rightarrow> world \<Rightarrow> snapshot \<Rightarrow> string \<Rightarrow> bool" where
  "records_status e w monitor s =
     (case ping_monitor e w monitor of
        (w', Some x) \<Rightarrow> False
      | (w', None) \<Rightarrow>
          writes w' = writes w @ [(reference monitor, status_fields s)]
          \<and> (case documents w' (reference monitor) of
                None \<Rightarrow> False
              | Some d' \<Rightarrow> d' ''status'' = Some (PyStr s)))"

text \<open>How a document may change under the worker: outside \<open>status\<close> and
  \<open>lastChecked\<close> not at all, and \<open>status\<close> only to \<open>up\<close> or \<open>down\<close>; what a
  payload of the worker looks like; and both for a whole run.\<close>

definition doc_evolves :: "document \<Rightarrow> document \<Rightarrow> bool" where
  "doc_evolves d d' =
     ((\<forall>k. k \<noteq> ''status'' \<longrightarrow> k \<noteq> ''lastChecked'' \<longrightarrow> d' k = d k)
      \<and> (d' ''status'' = d ''status'' \<or> d' ''status'' = Some (PyStr ''up'')
           \<or> d' ''status'' = Some (PyStr ''down'')))"

definition status_payload :: "ref \<times> document \<Rightarrow> bool" where
  "status_payload u =
     (dom (snd u) = {''status'', ''lastChecked''}
      \<and> (snd u ''status'' = Some (PyStr ''up'') \<or> snd u ''status'' = Some (PyStr ''down'')))"

definition only_status_written :: "world \<Rightarrow> world \<Rightarrow> bool" where
  "only_status_written w w' =
     ((\<forall>r d. documents w r = Some d \<longrightarrow> (\<exists>d'. documents w' r = Some d' \<and> doc_evolves d d'))
      \<and> (\<exists>new. writes w' = writes w @ new \<and> (\<forall>u \<in> set new. status_payload u)))"

section \<open>Example data\<close>

text \<open>Monitors of the user \<open>alice\<close>.  The clock of the examples stands at 1762000000:
  \<open>ex_boundary\<close> was checked exactly 60 seconds before, \<open>ex_overdue\<close> 61 seconds before
  (its \<open>lastChecked\<close> is a timestamp of the store), \<open>ex_new\<close> is as \<^verbatim>\<open>add_monitor\<close>
  creates it but without the interval, \<open>ex_slow\<close> was checked 200 seconds before and
  has an interval of 300 seconds, \<open>ex_far\<close> has a very long interval,
  \<open>ex_unset\<close> has no \<open>lastChecked\<close>, \<open>ex_no_url\<close> no URL, and the interval of
  \<open>ex_bad\<close> is not a number.\<close>

definition mk_monitor :: "string \<Rightarrow> (string \<times> pyval) list \<Rightarrow> snapshot" where
  "mk_monitor name kvs = \<lparr>reference = (''alice'', name), to_dict = map_of kvs\<rparr>"

definition ex_boundary :: snapshot where
  "ex_boundary = mk_monitor ''m1''
     [(''url'', PyStr ''http://a.example''), (''interval'', PyInt 60),
      (''status'', PyStr ''up''), (''lastChecked'', PyInt 1761999940)]"

definition ex_overdue :: snapshot where
  "ex_overdue = mk_monitor ''m2''
     [(''url'', PyStr ''http://b.example''), (''interval'', PyInt 60),
      (''status'', PyStr ''up''), (''lastChecked'', PyTimestamp 1761999939)]"

definition ex_new :: snapshot where
  "ex_new = mk_monitor ''m3''
     [(''name'', PyStr ''c''), (''url'', PyStr ''http://c.example''),
      (''status'', PyStr ''pending''), (''lastChecked'', PyInt 0)]"

definition ex_slow :: snapshot where
  "ex_slow = mk_monitor ''m8''
     [(''url'', PyStr ''http://h.example''), (''interval'', PyInt 300),
      (''status'', PyStr ''up''), (''lastChecked'', PyTimestamp 1761999800)]"

definition ex_far :: snapshot where
  "ex_far = mk_monitor ''m4''
     [(''url'', PyStr ''http://d.example''), (''interval'', PyInt 2000000000),
      (''status'', PyStr ''pending''), (''lastChecked'', PyInt 0)]"

definition ex_unset :: snapshot where
  "ex_unset = mk_monitor ''m5''
     [(''url'', PyStr ''http://e.example''), (''interval'', PyInt 60),
      (''status'', PyStr ''pending'')]"

definition ex_no_url :: snapshot where
  "ex_no_url = mk_monitor ''m6''
     [(''interval'', PyInt 60), (''status'', PyStr ''pending''), (''lastChecked'', PyInt 0)]"

definition ex_bad :: snapshot where
  "ex_bad = mk_monitor ''m7''
     [(''url'', PyStr ''http://g.example''), (''interval'', PyStr ''abc''),
      (''status'', PyStr ''pending''), (''lastChecked'', PyInt 0)]"

text \<open>A store that holds the given monitors, a world in which nothing has happened yet, and
  surroundings with the network given by the answer for each monitor.\<close>

definition store_of :: "snapshot list \<Rightarrow> (ref \<rightharpoonup> document)" where
  "store_of ms = map_of (map (\<lambda>m. (reference m, to_dict m)) ms)"

definition ex_world :: "snapshot list \<Rightarrow> world" where
  "ex_world ms = \<lparr>documents = store_of ms, probes = [], writes = [], log = [], slept = []\<rparr>"

definition ex_env :: "snapshot pystream pystream \<Rightarrow> (ref \<Rightarrow> http_outcome) \<Rightarrow> env" where
  "ex_env users net =
     \<lparr>clock = (\<lambda>k. 1762000000), users_stream = users, requests_get = (\<lambda>r url. net r),
      update_fault = (\<lambda>r. None), server_time = (\<lambda>r. 1762000001)\<rparr>"

definition ex_timeout_first :: "ref \<Rightarrow> http_outcome" where
  "ex_timeout_first r = (if r = (''alice'', ''m3'') then RequestException Timeout else Response 200)"

definition ex_crash_first :: "ref \<Rightarrow> http_outcome" where
  "ex_crash_first r = (if r = (''alice'', ''m3'') then Escapes OtherError else Response 200)"

text \<open>Streams of users, each with the stream of its monitors.\<close>

definition ex_users1 :: "snapshot pystream pystream" where
  "ex_users1 =
     Yield (Yield ex_boundary (Yield ex_overdue Done)) (Yield (Yield ex_new (Yield ex_slow Done)) Done)"

definition ex_users_new :: "snapshot pystream pystream" where
  "ex_users_new = Yield (Yield ex_new Done) Done"

text \<open>The surroundings over \<open>ex_users_new\<close> in which every request has the outcome \<open>r\<close>.\<close>

definition ex_net :: "http_outcome \<Rightarrow> env" where
  "ex_net r = ex_env ex_users_new (\<lambda>x. r)"

definition ex_users2 :: "snapshot pystream pystream" where
  "ex_users2 = Yield (Yield ex_new (Yield ex_overdue Done)) Done"

definition ex_users_broken :: "snapshot pystream pystream" where
  "ex_users_broken = Yield (Yield ex_overdue (Raise StoreUnavailable)) (Yield (Yield ex_new Done) Done)"

definition ex_users_unset :: "snapshot pystream pystream" where
  "ex_users_unset = Yield (Yield ex_overdue (Yield ex_unset Done)) Done"

definition ex_users_bad :: "snapshot pystream pystream" where
  "ex_users_bad = Yield (Yield ex_bad (Yield ex_overdue Done)) Done"

definition ex_users_no_url :: "snapshot pystream pystream" where
  "ex_users_no_url = Yield (Yield ex_no_url (Yield ex_overdue Done)) Done"

section \<open>Facts about the selection\<close>

lemma stamped_Nil: "stamped k [] = []"
  by (simp add: stamped_def)

lemma stamped_Cons: "stamped k (x # xs) = (x, k) # stamped (Suc k) xs"
proof -
  have "[k..<k + length (x # xs)] = k # [Suc k..<Suc k + length xs]"
    by (simp add: upt_conv_Cons del: upt_Suc)
  then show ?thesis by (simp add: stamped_def)
qed

lemma stamped_append: "stamped k (xs @ ys) = stamped k xs @ stamped (k + length xs) ys"
  by (induction xs arbitrary: k) (simp_all add: stamped_Nil stamped_Cons)

lemma in_stamped: "m \<in> set xs \<Longrightarrow> \<exists>i. (m, i) \<in> set (stamped k xs)"
proof (induction xs arbitrary: k)
  case (Cons x xs)
  show ?case
  proof (cases "m = x")
    case True
    then show ?thesis by (auto simp: stamped_Cons)
  next
    case False
    with Cons.prems have "m \<in> set xs" by simp
    from Cons.IH [OF this, of "Suc k"] show ?thesis by (auto simp: stamped_Cons)
  qed
qed simp

lemma selected_Nil: "selected clk k [] = []"
  by (simp add: selected_def stamped_Nil)

lemma selected_Cons:
  "selected clk k (m # ms) =
     (if check_due (clk k) m = Inr True then [m] else []) @ selected clk (Suc k) ms"
  by (simp add: selected_def stamped_Cons)

lemma selected_append:
  "selected clk k (xs @ ys) = selected clk k xs @ selected clk (k + length xs) ys"
  by (simp add: selected_def stamped_append)

lemma in_selected:
  "m \<in> set (selected clk k xs) \<Longrightarrow> \<exists>i. check_due (clk i) m = Inr True"
  by (auto simp: selected_def)

lemma check_due_Inr:
  "check_due now m = Inr d \<Longrightarrow>
     \<exists>lc iv. as_number (last_checked_of (to_dict m)) = Some lc \<and> interval_of (to_dict m) = Inr iv
       \<and> d = (now - lc > real_of_int iv)"
  by (auto simp: check_due_def float_sub_def Let_def split: sum.splits option.splits)

lemma check_due_later:
  assumes "check_due now m = Inr True" and "now \<le> now'"
  shows "check_due now' m = Inr True"
proof -
  from check_due_Inr [OF assms(1)] obtain lc iv
    where f: "as_number (last_checked_of (to_dict m)) = Some lc"
      "interval_of (to_dict m) = Inr iv" "now - lc > real_of_int iv"
    by auto
  from f(3) assms(2) have "now' - lc > real_of_int iv" by simp
  with f(1,2) show ?thesis by (simp add: check_due_def float_sub_def)
qed

lemma scan_monitors_Inr:
  "scan_monitors clk (k, acc) s = Inr (k', acc') \<Longrightarrow>
     k' = k + length (yielded s) \<and> acc' = acc @ selected clk k (yielded s) \<and> ending s = None"
proof (induction s arbitrary: k acc)
  case Done
  then show ?case by (simp add: selected_Nil)
next
  case (Raise e)
  then show ?case by simp
next
  case (Yield m rest)
  from Yield.prems obtain d where d: "check_due (clk k) m = Inr d"
    and rec: "scan_monitors clk (Suc k, if d then acc @ [m] else acc) rest = Inr (k', acc')"
    by (auto split: sum.splits)
  from Yield.IH [OF rec] d show ?case
    by (cases d) (simp_all add: selected_Cons)
qed

lemma scan_users_Inr:
  "scan_users clk (k, acc) us = Inr (k', acc') \<Longrightarrow>
     k' = k + length (enumerated us) \<and> acc' = acc @ selected clk k (enumerated us)"
proof (induction us arbitrary: k acc)
  case Done
  then show ?case by (simp add: selected_Nil enumerated_def)
next
  case (Raise e)
  then show ?case by simp
next
  case (Yield s rest)
  from Yield.prems obtain k1 acc1 where inner: "scan_monitors clk (k, acc) s = Inr (k1, acc1)"
    and rec: "scan_users clk (k1, acc1) rest = Inr (k', acc')"
    by (auto split: sum.splits)
  have e: "enumerated (Yield s rest) = yielded s @ enumerated rest"
    by (simp add: enumerated_def)
  from scan_monitors_Inr [OF inner] Yield.IH [OF rec] show ?case
    by (simp add: e selected_append)
qed

lemma scan_monitors_decided:
  "scan_monitors clk (k, acc) s = Inr st \<Longrightarrow> (m, i) \<in> set (stamped k (yielded s)) \<Longrightarrow>
     \<exists>d. check_due (clk i) m = Inr d"
proof (induction s arbitrary: k acc)
  case (Yield x rest)
  from Yield.prems(1) obtain d where d: "check_due (clk k) x = Inr d"
    and rec: "scan_monitors clk (Suc k, if d then acc @ [x] else acc) rest = Inr st"
    by (auto split: sum.splits)
  from Yield.prems(2) have "(m, i) = (x, k) \<or> (m, i) \<in> set (stamped (Suc k) (yielded rest))"
    by (simp add: stamped_Cons)
  with d Yield.IH [OF rec] show ?case by auto
qed (simp_all add: stamped_Nil)

lemma scan_users_decided:
  "scan_users clk (k, acc) us = Inr st \<Longrightarrow> (m, i) \<in> set (stamped k (enumerated us)) \<Longrightarrow>
     \<exists>d. check_due (clk i) m = Inr d"
proof (induction us arbitrary: k acc)
  case (Yield s rest)
  from Yield.prems(1) obtain k1 acc1 where inner: "scan_monitors clk (k, acc) s = Inr (k1, acc1)"
    and rec: "scan_users clk (k1, acc1) rest = Inr st"
    by (auto split: sum.splits)
  from scan_monitors_Inr [OF inner] have k1: "k1 = k + length (yielded s)" by simp
  from Yield.prems(2) have "(m, i) \<in> set (stamped k (yielded s)) \<or>
      (m, i) \<in> set (stamped k1 (enumerated rest))"
    by (simp add: enumerated_def stamped_append k1)
  with scan_monitors_decided [OF inner] Yield.IH [OF rec] show ?case by blast
qed (simp_all add: stamped_Nil enumerated_def)

lemma scan_users_bad_interval:
  assumes "m \<in> set (enumerated us)" and "interval_of (to_dict m) = Inl x"
  shows "\<exists>y. scan_users clk (k, acc) us = Inl y"
proof (cases "scan_users clk (k, acc) us")
  case (Inl y)
  then show ?thesis by simp
next
  case (Inr st)
  from in_stamped [OF assms(1)] obtain i where "(m, i) \<in> set (stamped k (enumerated us))" ..
  from scan_users_decided [OF Inr this] obtain d where "check_due (clk i) m = Inr d" ..
  from check_due_Inr [OF this] assms(2) show ?thesis by simp
qed

lemma scan_monitors_ending:
  "ending s = Some x \<Longrightarrow> \<exists>y. scan_monitors clk st s = Inl y"
proof (induction s arbitrary: st)
  case (Yield m rest)
  obtain k acc where st: "st = (k, acc)" by (cases st)
  show ?case
  proof (cases "check_due (clk k) m")
    case (Inl y)
    with st show ?thesis by simp
  next
    case (Inr d)
    from Yield.prems have "ending rest = Some x" by simp
    from Yield.IH [OF this] Inr st show ?thesis by simp
  qed
qed simp_all

lemma scan_users_fails:
  "stream_fails us \<Longrightarrow> \<exists>y. scan_users clk st us = Inl y"
proof (induction us arbitrary: st)
  case (Yield s rest)
  show ?case
  proof (cases "scan_monitors clk st s")
    case (Inl y)
    then show ?thesis by simp
  next
    case (Inr st')
    have "ending s = None"
    proof (cases "ending s")
      case (Some x)
      from scan_monitors_ending [OF this, of clk st] Inr show ?thesis by simp
    qed simp
    with Yield.prems have "stream_fails rest" by simp
    from Yield.IH [OF this, of st'] Inr show ?thesis by simp
  qed
qed simp_all

section \<open>Facts about probing and writing one monitor\<close>

lemma probe_status: "probe r = Inr status \<Longrightarrow> status = ''up'' \<or> status = ''down''"
  by (auto simp: probe_def split: http_outcome.splits if_splits)

lemma probe_Response: "probe (Response c) = Inr (if 400 \<le> c \<and> c < 600 then ''down'' else ''up'')"
  by (simp add: probe_def response_ok_def)

lemma probe_RequestException: "probe (RequestException x) = Inr ''down''"
  by (simp add: probe_def)

lemma status_fields_dom: "dom (status_fields s) = {''status'', ''lastChecked''}"
  by (auto simp: status_fields_def)

lemma status_fields_status: "status_fields s ''status'' = Some (PyStr s)"
  by (simp add: status_fields_def)

lemma written_document:
  "(d ++ resolve t (status_fields s)) k =
     (if k = ''lastChecked'' then Some (PyTimestamp t)
      else if k = ''status'' then Some (PyStr s) else d k)"
  by (simp add: map_add_def resolve_def status_fields_def SERVER_TIMESTAMP_def)

lemma ping_monitor_no_url: "\<not> has_url m \<Longrightarrow> ping_monitor e w m = (w, None)"
  by (simp add: ping_monitor_def has_url_def)

lemma ping_monitor_cases:
  assumes "ping_monitor e w m = (w', r)"
  shows "(\<not> has_url m \<and> w' = w \<and> r = None) \<or>
     (has_url m \<and> (\<exists>x. r = Some x) \<and> w' = w\<lparr>probes := probes w @ [reference m]\<rparr>) \<or>
     (has_url m \<and> r = None \<and>
       (\<exists>status d. (status = ''up'' \<or> status = ''down'')
          \<and> probe (requests_get e (reference m) (dict_get (to_dict m) ''url'' PyNone)) = Inr status
          \<and> update_fault e (reference m) = None
          \<and> documents w (reference m) = Some d
          \<and> w' = w\<lparr>probes := probes w @ [reference m],
                     documents := (documents w)(reference m \<mapsto>
                        d ++ resolve (server_time e (reference m)) (status_fields status)),
                     writes := writes w @ [(reference m, status_fields status)],
                     log := log w @ [Pinged (dict_get (to_dict m) ''url'' PyNone) status]\<rparr>))"
proof (cases "has_url m")
  case False
  with assms show ?thesis by (simp add: ping_monitor_no_url)
next
  case True
  let ?url = "dict_get (to_dict m) ''url'' PyNone"
  show ?thesis
  proof (cases "probe (requests_get e (reference m) ?url)")
    case (Inl x)
    with assms True show ?thesis
      by (auto simp: ping_monitor_def has_url_def Let_def)
  next
    case (Inr status)
    note st = probe_status [OF Inr]
    show ?thesis
    proof (cases "update e (documents w) (reference m) (status_fields status)")
      case (Inl x)
      with assms True Inr show ?thesis
        by (auto simp: ping_monitor_def has_url_def Let_def)
    next
      case upd: (Inr docs)
      then obtain d where d: "documents w (reference m) = Some d"
        and f: "update_fault e (reference m) = None"
        and docs: "docs = (documents w)(reference m \<mapsto>
                        d ++ resolve (server_time e (reference m)) (status_fields status))"
        by (auto simp: update_def split: option.splits)
      from assms True Inr upd have "r = None" and
        "w' = w\<lparr>probes := probes w @ [reference m], documents := docs,
               writes := writes w @ [(reference m, status_fields status)],
               log := log w @ [Pinged ?url status]\<rparr>"
        by (auto simp: ping_monitor_def has_url_def Let_def)
      with True st d f docs Inr show ?thesis by auto
    qed
  qed
qed

lemma ping_monitor_ok:
  assumes "has_url m"
    and "probe (requests_get e (reference m) (dict_get (to_dict m) ''url'' PyNone)) = Inr s"
    and "update_fault e (reference m) = None" and "documents w (reference m) = Some d"
  shows "ping_monitor e w m =
     (w\<lparr>probes := probes w @ [reference m],
        documents := (documents w)(reference m \<mapsto>
           d ++ resolve (server_time e (reference m)) (status_fields s)),
        writes := writes w @ [(reference m, status_fields s)],
        log := log w @ [Pinged (dict_get (to_dict m) ''url'' PyNone) s]\<rparr>, None)"
  using assms by (simp add: ping_monitor_def has_url_def update_def Let_def)

lemma ping_monitor_probe_raises:
  assumes "has_url m"
    and "probe (requests_get e (reference m) (dict_get (to_dict m) ''url'' PyNone)) = Inl x"
  shows "ping_monitor e w m = (w\<lparr>probes := probes w @ [reference m]\<rparr>, Some x)"
  using assms by (simp add: ping_monitor_def has_url_def Let_def)

lemma ping_monitor_update_raises:
  assumes "has_url m"
    and "probe (requests_get e (reference m) (dict_get (to_dict m) ''url'' PyNone)) = Inr s"
    and "update e (documents w) (reference m) (status_fields s) = Inl x"
  shows "ping_monitor e w m = (w\<lparr>probes := probes w @ [reference m]\<rparr>, Some x)"
  using assms by (simp add: ping_monitor_def has_url_def Let_def)

lemma records_status_ok:
  assumes "has_url m"
    and "probe (requests_get e (reference m) (dict_get (to_dict m) ''url'' PyNone)) = Inr s"
    and "update_fault e (reference m) = None" and "documents w (reference m) = Some d"
  shows "records_status e w m s' = (s' = s)"
proof
  assume "records_status e w m s'"
  then show "s' = s"
    by (simp add: records_status_def ping_monitor_ok [OF assms] written_document)
next
  assume "s' = s"
  then show "records_status e w m s'"
    by (simp add: records_status_def ping_monitor_ok [OF assms] written_document)
qed


lemma ping_monitor_untouched:
  assumes "ping_monitor e w m = (w', r)" and "x \<noteq> reference m"
  shows "documents w' x = documents w x"
  using ping_monitor_cases [OF assms(1)] assms(2) by auto

section \<open>Facts about the second loop\<close>

lemma dispatch_append:
  "dispatch e w (xs @ ys) =
     (case dispatch e w xs of (w', Some x) \<Rightarrow> (w', Some x) | (w', None) \<Rightarrow> dispatch e w' ys)"
  by (induction xs arbitrary: w) (auto split: prod.splits option.splits)

lemma dispatch_raises_at:
  assumes "dispatch e w pre = (w1, None)" and "ping_monitor e w1 m = (w2, Some x)"
  shows "dispatch e w (pre @ m # post) = (w2, Some x)"
  using assms by (simp add: dispatch_append)

lemma dispatch_trace:
  "dispatch e w ms = (w', r) \<Longrightarrow>
     \<exists>j. j \<le> length ms \<and> (r = None \<longrightarrow> j = length ms)
        \<and> (r \<noteq> None \<longrightarrow> j < length ms \<and> has_url (ms ! j))
        \<and> map fst (writes w') = map fst (writes w) @ map reference (filter has_url (take j ms))
        \<and> probes w' = probes w @ map reference
              (filter has_url (take (if r = None then j else Suc j) ms))"
proof (induction ms arbitrary: w)
  case Nil
  then show ?case by simp
next
  case (Cons m ms)
  obtain w1 r1 where pm: "ping_monitor e w m = (w1, r1)" by (cases "ping_monitor e w m")
  show ?case
  proof (cases r1)
    case (Some x)
    with pm Cons.prems have eq: "w' = w1" "r = Some x" by simp_all
    from ping_monitor_cases [OF pm] Some
    have "has_url m" and "w1 = w\<lparr>probes := probes w @ [reference m]\<rparr>" by auto
    with eq show ?thesis by (intro exI [of _ 0]) simp
  next
    case None
    with pm Cons.prems have rest: "dispatch e w1 ms = (w', r)" by simp
    from Cons.IH [OF rest] obtain j where j: "j \<le> length ms" "r = None \<longrightarrow> j = length ms"
      "r \<noteq> None \<longrightarrow> j < length ms \<and> has_url (ms ! j)"
      "map fst (writes w') = map fst (writes w1) @ map reference (filter has_url (take j ms))"
      "probes w' = probes w1 @ map reference
              (filter has_url (take (if r = None then j else Suc j) ms))"
      by blast
    from ping_monitor_cases [OF pm] None
    have w1: "map fst (writes w1) = map fst (writes w) @ (if has_url m then [reference m] else [])"
      "probes w1 = probes w @ (if has_url m then [reference m] else [])"
      by auto
    from j w1 show ?thesis by (intro exI [of _ "Suc j"]) simp
  qed
qed

lemma distinct_filter_take:
  "distinct (map f xs) \<Longrightarrow> distinct (map f (filter P (take j xs)))"
proof -
  assume "distinct (map f xs)"
  then have "distinct (take j (map f xs))" by (rule distinct_take)
  then have "distinct (map f (take j xs))" by (simp add: take_map)
  then show ?thesis by (rule distinct_map_filter)
qed


lemma dispatch_untouched:
  "dispatch e w ms = (w', r) \<Longrightarrow> x \<notin> reference ` set ms \<Longrightarrow> documents w' x = documents w x"
proof (induction ms arbitrary: w)
  case (Cons m ms)
  obtain w1 r1 where pm: "ping_monitor e w m = (w1, r1)" by (cases "ping_monitor e w m")
  from Cons.prems(2) have x: "x \<noteq> reference m" "x \<notin> reference ` set ms" by auto
  note u = ping_monitor_untouched [OF pm x(1)]
  show ?case
  proof (cases r1)
    case None
    with pm Cons.prems(1) have "dispatch e w1 ms = (w', r)" by simp
    from Cons.IH [OF this x(2)] u show ?thesis by simp
  next
    case (Some y)
    with pm Cons.prems(1) u show ?thesis by simp
  qed
qed simp

section \<open>Facts about cycles and passes\<close>

lemma cycle_dispatch:
  assumes "scan_users (clock e) (0, []) (users_stream e) = Inr (n, due)"
    and "dispatch e w due = (w', r)"
  shows "cycle e w = (case r of None \<Rightarrow> w' | Some x \<Rightarrow> w'\<lparr>log := log w' @ [LoopError x]\<rparr>)"
  using assms by (simp add: cycle_def split: option.splits)

lemma cycle_scan_raises:
  assumes "scan_users (clock e) (0, []) (users_stream e) = Inl x"
  shows "cycle e w = w\<lparr>log := log w @ [LoopError x]\<rparr>"
  using assms by (simp add: cycle_def)

lemma cycle_probes_subset:
  assumes "scan_users (clock e) (0, []) (users_stream e) = Inr (n, due)"
  shows "set (probes (cycle e w)) \<subseteq> set (probes w) \<union> reference ` set due"
proof -
  obtain w' r where d: "dispatch e w due = (w', r)" by (cases "dispatch e w due")
  from dispatch_trace [OF d] obtain j where
    "probes w' = probes w @ map reference (filter has_url (take (if r = None then j else Suc j) due))"
    by blast
  then have "set (probes w') \<subseteq> set (probes w) \<union> reference ` set due"
    by (auto dest: in_set_takeD)
  moreover from assms d have "probes (cycle e w) = probes w'"
    by (cases r) (simp_all add: cycle_def)
  ultimately show ?thesis by simp
qed



text \<open>Without a client the module does not start the worker at all.\<close>

lemma start_pinger_unset: "start_pinger False es w = w"
  by (simp add: start_pinger_def)

section \<open>Facts about what is written\<close>

lemma doc_evolves_refl: "doc_evolves d d"
  by (simp add: doc_evolves_def)

lemma doc_evolves_trans: "doc_evolves d1 d2 \<Longrightarrow> doc_evolves d2 d3 \<Longrightarrow> doc_evolves d1 d3"
proof -
  assume a: "doc_evolves d1 d2" and b: "doc_evolves d2 d3"
  have "d3 k = d1 k" if "k \<noteq> ''status''" "k \<noteq> ''lastChecked''" for k
  proof -
    from a that have "d2 k = d1 k" unfolding doc_evolves_def by blast
    moreover from b that have "d3 k = d2 k" unfolding doc_evolves_def by blast
    ultimately show ?thesis by simp
  qed
  moreover from a have "d2 ''status'' = d1 ''status'' \<or> d2 ''status'' = Some (PyStr ''up'')
      \<or> d2 ''status'' = Some (PyStr ''down'')"
    unfolding doc_evolves_def by blast
  moreover from b have "d3 ''status'' = d2 ''status'' \<or> d3 ''status'' = Some (PyStr ''up'')
      \<or> d3 ''status'' = Some (PyStr ''down'')"
    unfolding doc_evolves_def by blast
  ultimately show ?thesis
    unfolding doc_evolves_def by presburger
qed

lemma only_status_written_same:
  "documents w' = documents w \<Longrightarrow> writes w' = writes w \<Longrightarrow> only_status_written w w'"
  by (simp add: only_status_written_def doc_evolves_refl)

lemma only_status_written_refl: "only_status_written w w"
  by (simp add: only_status_written_same)

lemma only_status_written_trans:
  assumes "only_status_written w1 w2" and "only_status_written w2 w3"
  shows "only_status_written w1 w3"
proof -
  from assms(1) obtain n1 where n1: "writes w2 = writes w1 @ n1" "\<forall>u \<in> set n1. status_payload u"
    unfolding only_status_written_def by blast
  from assms(2) obtain n2 where n2: "writes w3 = writes w2 @ n2" "\<forall>u \<in> set n2. status_payload u"
    unfolding only_status_written_def by blast
  have docs: "\<exists>d'. documents w3 r = Some d' \<and> doc_evolves d d'"
    if d: "documents w1 r = Some d" for r d
  proof -
    from assms(1) d obtain d2 where d2: "documents w2 r = Some d2" "doc_evolves d d2"
      unfolding only_status_written_def by blast
    from assms(2) d2(1) obtain d3 where d3: "documents w3 r = Some d3" "doc_evolves d2 d3"
      unfolding only_status_written_def by blast
    from d3(1) doc_evolves_trans [OF d2(2) d3(2)] show ?thesis by blast
  qed
  from n1 n2 have "writes w3 = writes w1 @ (n1 @ n2)" "\<forall>u \<in> set (n1 @ n2). status_payload u"
    by auto
  with docs show ?thesis
    unfolding only_status_written_def by blast
qed

lemma ping_monitor_only_status:
  assumes "ping_monitor e w m = (w', x)"
  shows "only_status_written w w'"
proof -
  from ping_monitor_cases [OF assms]
  consider "w' = w" | "w' = w\<lparr>probes := probes w @ [reference m]\<rparr>"
    | status d where "status = ''up'' \<or> status = ''down''" "documents w (reference m) = Some d"
        "w' = w\<lparr>probes := probes w @ [reference m],
                 documents := (documents w)(reference m \<mapsto>
                    d ++ resolve (server_time e (reference m)) (status_fields status)),
                 writes := writes w @ [(reference m, status_fields status)],
                 log := log w @ [Pinged (dict_get (to_dict m) ''url'' PyNone) status]\<rparr>"
    by blast
  then show ?thesis
  proof cases
    case 1
    then show ?thesis by (simp add: only_status_written_refl)
  next
    case 2
    then show ?thesis by (simp add: only_status_written_same)
  next
    case 3
    let ?d' = "d ++ resolve (server_time e (reference m)) (status_fields status)"
    from 3(1) have ev: "doc_evolves d ?d'"
      by (auto simp: doc_evolves_def written_document)
    from 3(1) have pl: "status_payload (reference m, status_fields status)"
      by (auto simp: status_payload_def status_fields_dom status_fields_status)
    have docs: "\<exists>d'. documents w' r = Some d' \<and> doc_evolves d0 d'"
      if d0: "documents w r = Some d0" for r d0
    proof (cases "r = reference m")
      case True
      with d0 3(2) have "d0 = d" by simp
      with True 3(3) ev show ?thesis by simp
    next
      case False
      with d0 3(3) show ?thesis by (simp add: doc_evolves_refl)
    qed
    from 3(3) have "writes w' = writes w @ [(reference m, status_fields status)]" by simp
    moreover from pl have "\<forall>u \<in> set [(reference m, status_fields status)]. status_payload u"
      by simp
    ultimately show ?thesis
      using docs unfolding only_status_written_def by blast
  qed
qed

lemma dispatch_only_status: "dispatch e w ms = (w', x) \<Longrightarrow> only_status_written w w'"
proof (induction ms arbitrary: w)
  case Nil
  then show ?case by (simp add: only_status_written_refl)
next
  case (Cons m ms)
  obtain w1 r1 where pm: "ping_monitor e w m = (w1, r1)" by (cases "ping_monitor e w m")
  note s1 = ping_monitor_only_status [OF pm]
  show ?case
  proof (cases r1)
    case None
    with pm Cons.prems have "dispatch e w1 ms = (w', x)" by simp
    from only_status_written_trans [OF s1 Cons.IH [OF this]] show ?thesis .
  next
    case (Some y)
    with pm Cons.prems s1 show ?thesis by simp
  qed
qed

lemma cycle_only_status: "only_status_written w (cycle e w)"
proof (cases "scan_users (clock e) (0, []) (users_stream e)")
  case (Inl x)
  then show ?thesis by (simp add: cycle_def only_status_written_same)
next
  case (Inr st)
  obtain k due where st: "st = (k, due)" by (cases st)
  obtain w' r where d: "dispatch e w due = (w', r)" by (cases "dispatch e w due")
  have "only_status_written w' (cycle e w)"
    using Inr st d by (cases r) (simp_all add: cycle_def only_status_written_same)
  from only_status_written_trans [OF dispatch_only_status [OF d] this] show ?thesis .
qed

lemma pinger_iteration_only_status: "only_status_written w (pinger_iteration db e w)"
proof -
  have "only_status_written (cycle e w) (pinger_iteration True e w)"
    by (simp add: pinger_iteration_def Let_def only_status_written_same)
  from only_status_written_trans [OF cycle_only_status this]
  show ?thesis by (cases db) (simp_all add: pinger_iteration_def only_status_written_same)
qed

lemma pinger_worker_only_status: "only_status_written w (pinger_worker db es w)"
proof (induction es arbitrary: w)
  case Nil
  show ?case by (simp add: only_status_written_refl)
next
  case (Cons e es)
  from only_status_written_trans [OF pinger_iteration_only_status Cons.IH]
  show ?case by simp
qed

section \<open>Facts about single decisions and about what is probed\<close>

lemma stamped_iff: "(x, i) \<in> set (stamped 0 xs) \<longleftrightarrow> i < length xs \<and> xs ! i = x"
  by (auto simp: stamped_def in_set_zip)

lemma nth_elsewhere:
  assumes "j < length xs" and "j \<noteq> k"
  shows "xs ! j \<in> set (take k xs @ drop (Suc k) xs)"
proof (cases "j < k")
  case True
  with assms(1) have "take k xs ! j = xs ! j" "j < length (take k xs)" by simp_all
  then have "xs ! j \<in> set (take k xs)" by (metis nth_mem)
  then show ?thesis by simp
next
  case False
  with assms have "Suc k \<le> j" by simp
  with assms(1) have "drop (Suc k) xs ! (j - Suc k) = xs ! j" "j - Suc k < length (drop (Suc k) xs)"
    by simp_all
  then have "xs ! j \<in> set (drop (Suc k) xs)" by (metis nth_mem)
  then show ?thesis by simp
qed

lemma check_due_fields:
  assumes "to_dict m ''lastChecked'' = Some (PyInt a) \<and> lc = real_of_int a
      \<or> to_dict m ''lastChecked'' = Some (PyFloat lc)
      \<or> to_dict m ''lastChecked'' = Some (PyTimestamp lc)"
    and "to_dict m ''interval'' = Some (PyInt iv) \<or> to_dict m ''interval'' = None \<and> iv = 60"
  shows "check_due now m = Inr (real_of_int iv < now - lc)"
  using assms
  by (auto simp: check_due_def last_checked_of_def interval_of_def dict_get_def float_sub_def)

lemma is_double_int: "\<bar>a\<bar> < 2 ^ 53 \<Longrightarrow> is_double (real_of_int a)"
  unfolding is_double_def by (intro exI [of _ a] exI [of _ 0]) simp

lemma cycle_probes_selected:
  "set (probes (cycle e w)) \<subseteq>
     set (probes w) \<union> reference ` set (selected (clock e) 0 (enumerated (users_stream e)))"
proof (cases "scan_users (clock e) (0, []) (users_stream e)")
  case (Inl x)
  from cycle_scan_raises [OF this] show ?thesis by simp
next
  case (Inr st)
  obtain n due where st: "st = (n, due)" by (cases st)
  with Inr have sc: "scan_users (clock e) (0, []) (users_stream e) = Inr (n, due)" by simp
  from scan_users_Inr [OF sc] cycle_probes_subset [OF sc] show ?thesis by simp
qed

section \<open>The example data evaluated\<close>

lemma ex_env_facts:
  "clock (ex_env us net) k = 1762000000" "users_stream (ex_env us net) = us"
  "requests_get (ex_env us net) r url = net r" "update_fault (ex_env us net) r = None"
  "server_time (ex_env us net) r = 1762000001"
  by (simp_all add: ex_env_def)

lemma ex_world_facts:
  "probes (ex_world ms) = []" "writes (ex_world ms) = []" "log (ex_world ms) = []"
  "slept (ex_world ms) = []" "documents (ex_world ms) = store_of ms"
  by (simp_all add: ex_world_def)

lemma store_of_Nil: "store_of [] r = None"
  by (simp add: store_of_def)

lemma store_of_Cons:
  "store_of (m # ms) r = (if r = reference m then Some (to_dict m) else store_of ms r)"
  by (simp add: store_of_def)

lemma ex_net_facts:
  "requests_get (ex_net r) x url = r" "update_fault (ex_net r) x = None"
  by (simp_all add: ex_net_def ex_env_facts)

lemma ex_boundary_due: "check_due 1762000000 ex_boundary = Inr False"
  by (simp add: check_due_def ex_boundary_def mk_monitor_def interval_of_def last_checked_of_def
      dict_get_def float_sub_def)

lemma ex_overdue_due: "check_due 1762000000 ex_overdue = Inr True"
  by (simp add: check_due_def ex_overdue_def mk_monitor_def interval_of_def last_checked_of_def
      dict_get_def float_sub_def)

lemma ex_new_due: "check_due 1762000000 ex_new = Inr True"
  by (simp add: check_due_def ex_new_def mk_monitor_def interval_of_def last_checked_of_def
      dict_get_def float_sub_def SERVER_TIMESTAMP_def)

lemma ex_new_facts:
  "reference ex_new = (''alice'', ''m3'')"
  "dict_get (to_dict ex_new) ''url'' PyNone = PyStr ''http://c.example''"
  "has_url ex_new"
  "to_dict ex_new ''name'' = Some (PyStr ''c'')"
  "to_dict ex_new ''lastChecked'' = Some (PyInt 0)"
  "interval_of (to_dict ex_new) = Inr 60"
  by (simp_all add: ex_new_def mk_monitor_def dict_get_def has_url_def interval_of_def)

lemma ex_overdue_facts:
  "reference ex_overdue = (''alice'', ''m2'')"
  "dict_get (to_dict ex_overdue) ''url'' PyNone = PyStr ''http://b.example''"
  "has_url ex_overdue"
  "to_dict ex_overdue ''lastChecked'' = Some (PyTimestamp 1761999939)"
  "interval_of (to_dict ex_overdue) = Inr 60"
  by (simp_all add: ex_overdue_def mk_monitor_def dict_get_def has_url_def interval_of_def)

lemma ex_no_url_facts:
  "reference ex_no_url = (''alice'', ''m6'')" "\<not> has_url ex_no_url"
  "check_due 1762000000 ex_no_url = Inr True"
  by (simp_all add: ex_no_url_def mk_monitor_def dict_get_def has_url_def check_due_def
      interval_of_def last_checked_of_def float_sub_def)

lemma ex_unset_due: "check_due now ex_unset = Inl TypeError"
  by (simp add: check_due_def ex_unset_def mk_monitor_def interval_of_def last_checked_of_def
      dict_get_def float_sub_def SERVER_TIMESTAMP_def)

lemma ex_bad_facts:
  "interval_of (to_dict ex_bad) = Inl ValueError"
  "check_due now ex_bad = Inl ValueError"
  by (simp_all add: ex_bad_def mk_monitor_def dict_get_def check_due_def interval_of_def
      int_of_str_def strip_def is_space_def is_digit_def)

lemma ex_boundary_facts:
  "reference ex_boundary = (''alice'', ''m1'')"
  "to_dict ex_boundary ''lastChecked'' = Some (PyInt 1761999940)"
  "to_dict ex_boundary ''interval'' = Some (PyInt 60)"
  by (simp_all add: ex_boundary_def mk_monitor_def)

lemma ex_slow_facts:
  "reference ex_slow = (''alice'', ''m8'')"
  "to_dict ex_slow ''lastChecked'' = Some (PyTimestamp 1761999800)"
  "to_dict ex_slow ''interval'' = Some (PyInt 300)"
  "check_due 1762000000 ex_slow = Inr False"
  by (simp_all add: ex_slow_def mk_monitor_def check_due_def interval_of_def last_checked_of_def
      dict_get_def float_sub_def)

lemma ex_overdue_interval: "to_dict ex_overdue ''interval'' = Some (PyInt 60)"
  by (simp add: ex_overdue_def mk_monitor_def)

lemma ex_users1_enumerated: "enumerated ex_users1 = [ex_boundary, ex_overdue, ex_new, ex_slow]"
  by (simp add: ex_users1_def enumerated_def)

lemma ex_users1_scan:
  "scan_users (clock (ex_env ex_users1 net)) (0, []) (users_stream (ex_env ex_users1 net))
     = Inr (4, [ex_overdue, ex_new])"
  by (simp add: ex_env_def ex_users1_def ex_boundary_due ex_overdue_due ex_new_due ex_slow_facts)

lemma ex_users_unset_scan:
  "scan_users (clock (ex_env ex_users_unset net)) (0, []) (users_stream (ex_env ex_users_unset net))
     = Inl TypeError"
  by (simp add: ex_env_facts ex_users_unset_def ex_overdue_due ex_unset_due)

lemma ex_users2_scan:
  "scan_users (clock (ex_env ex_users2 net)) (0, []) (users_stream (ex_env ex_users2 net))
     = Inr (2, [ex_new, ex_overdue])"
  by (simp add: ex_env_facts ex_users2_def ex_overdue_due ex_new_due)

lemma ex_users_no_url_scan:
  "scan_users (clock (ex_env ex_users_no_url net)) (0, []) (users_stream (ex_env ex_users_no_url net))
     = Inr (2, [ex_no_url, ex_overdue])"
  by (simp add: ex_env_facts ex_users_no_url_def ex_overdue_due ex_no_url_facts)

lemma ex_users_bad_scan:
  "scan_users (clock (ex_env ex_users_bad net)) (0, []) (users_stream (ex_env ex_users_bad net))
     = Inl ValueError"
  by (simp add: ex_env_facts ex_users_bad_def ex_bad_facts)

lemma ex_new_vanished:
  "ping_monitor (ex_env us (\<lambda>r. Response 200)) (ex_world [ex_overdue]) ex_new
     = ((ex_world [ex_overdue])\<lparr>probes := [reference ex_new]\<rparr>, Some NotFound)"
proof -
  have p: "probe (requests_get (ex_env us (\<lambda>r. Response 200)) (reference ex_new)
      (dict_get (to_dict ex_new) ''url'' PyNone)) = Inr ''up''"
    by (simp add: ex_env_facts probe_Response)
  have u: "update (ex_env us (\<lambda>r. Response 200)) (documents (ex_world [ex_overdue]))
      (reference ex_new) (status_fields ''up'') = Inl NotFound"
    by (simp add: update_def ex_env_facts ex_world_facts store_of_Cons store_of_Nil
        ex_new_facts ex_overdue_facts)
  from ping_monitor_update_raises [OF ex_new_facts(3) p u] show ?thesis
    by (simp add: ex_world_facts)
qed

lemma ex_vanished_cycle:
  "cycle (ex_env ex_users2 (\<lambda>r. Response 200)) (ex_world [ex_overdue])
     = (ex_world [ex_overdue])\<lparr>probes := [reference ex_new], log := [LoopError NotFound]\<rparr>"
proof -
  have "dispatch (ex_env ex_users2 (\<lambda>r. Response 200)) (ex_world [ex_overdue])
      [ex_new, ex_overdue] = ((ex_world [ex_overdue])\<lparr>probes := [reference ex_new]\<rparr>, Some NotFound)"
    by (simp add: ex_new_vanished)
  from cycle_dispatch [OF ex_users2_scan this] show ?thesis
    by (simp add: ex_world_facts)
qed

lemma ex_overdue_ok:
  assumes "documents w (reference ex_overdue) = Some d" and "net (''alice'', ''m2'') = Response 200"
  shows "ping_monitor (ex_env us net) w ex_overdue =
     (w\<lparr>probes := probes w @ [reference ex_overdue],
        documents := (documents w)(reference ex_overdue \<mapsto>
           d ++ resolve 1762000001 (status_fields ''up'')),
        writes := writes w @ [(reference ex_overdue, status_fields ''up'')],
        log := log w @ [Pinged (PyStr ''http://b.example'') ''up'']\<rparr>, None)"
proof -
  have p: "probe (requests_get (ex_env us net) (reference ex_overdue)
      (dict_get (to_dict ex_overdue) ''url'' PyNone)) = Inr ''up''"
    by (simp add: ex_env_facts probe_Response ex_overdue_facts assms(2))
  from ping_monitor_ok [OF ex_overdue_facts(3) p ex_env_facts(4) assms(1)] show ?thesis
    by (simp add: ex_env_facts ex_overdue_facts(2))
qed

lemma ex_no_url_dispatch:
  "dispatch (ex_env us (\<lambda>r. Response 200)) (ex_world [ex_no_url, ex_overdue])
      [ex_no_url, ex_overdue] =
     ((ex_world [ex_no_url, ex_overdue])\<lparr>probes := [reference ex_overdue],
        documents := (store_of [ex_no_url, ex_overdue])(reference ex_overdue \<mapsto>
           to_dict ex_overdue ++ resolve 1762000001 (status_fields ''up'')),
        writes := [(reference ex_overdue, status_fields ''up'')],
        log := [Pinged (PyStr ''http://b.example'') ''up'']\<rparr>, None)"
proof -
  have d: "documents (ex_world [ex_no_url, ex_overdue]) (reference ex_overdue)
      = Some (to_dict ex_overdue)"
    by (simp add: ex_world_facts store_of_Cons ex_no_url_facts ex_overdue_facts)
  show ?thesis
    by (simp add: ping_monitor_no_url [OF ex_no_url_facts(2)] ex_overdue_ok [OF d] ex_world_facts)
qed

lemma ex_new_crash:
  "ping_monitor (ex_env us ex_crash_first) w ex_new
     = (w\<lparr>probes := probes w @ [reference ex_new]\<rparr>, Some OtherError)"
proof -
  have "probe (requests_get (ex_env us ex_crash_first) (reference ex_new)
      (dict_get (to_dict ex_new) ''url'' PyNone)) = Inl OtherError"
    by (simp add: ex_env_facts ex_new_facts ex_crash_first_def probe_def)
  from ping_monitor_probe_raises [OF ex_new_facts(3) this] show ?thesis .
qed

lemma ex_new_timeout:
  assumes "documents w (reference ex_new) = Some d"
  shows "ping_monitor (ex_env us ex_timeout_first) w ex_new =
     (w\<lparr>probes := probes w @ [reference ex_new],
        documents := (documents w)(reference ex_new \<mapsto>
           d ++ resolve 1762000001 (status_fields ''down'')),
        writes := writes w @ [(reference ex_new, status_fields ''down'')],
        log := log w @ [Pinged (PyStr ''http://c.example'') ''down'']\<rparr>, None)"
proof -
  have p: "probe (requests_get (ex_env us ex_timeout_first) (reference ex_new)
      (dict_get (to_dict ex_new) ''url'' PyNone)) = Inr ''down''"
    by (simp add: ex_env_facts ex_new_facts ex_timeout_first_def probe_RequestException)
  from ping_monitor_ok [OF ex_new_facts(3) p ex_env_facts(4) assms] show ?thesis
    by (simp add: ex_env_facts ex_new_facts(2))
qed

section \<open>The claims\<close>

subsection \<open>C1: due exactly when the elapsed time exceeds the interval\<close>

text \<open>
  Claim C1, amended.  Let a monitor be met by the enumeration, with a \<open>lastChecked\<close> that is
  a number or a timestamp of the store and an interval that is an integer or absent (60
  then), and let the clock reading made for it, its \<open>lastChecked\<close> and their difference be
  doubles, so that nothing is rounded.  Then the comparison of line 52 is
  \<open>now - lastChecked > interval\<close>, with the strict inequality, and the monitor is among
  those that the comparison lets through exactly when it holds.  When the selection
  completes, the list handed to the second loop consists of the monitors that the
  comparison lets through.  And a monitor for which it does not hold, as when
  \<open>now - lastChecked = interval\<close>, is not probed in that cycle, provided that no other
  enumerated monitor has its reference.
\<close>

theorem due_iff_elapsed_exceeds_interval:
  assumes "k < length (enumerated (users_stream e))"
    and "m = enumerated (users_stream e) ! k"
    and "to_dict m ''lastChecked'' = Some (PyInt a) \<and> lc = real_of_int a
      \<or> to_dict m ''lastChecked'' = Some (PyFloat lc)
      \<or> to_dict m ''lastChecked'' = Some (PyTimestamp lc)"
    and "to_dict m ''interval'' = Some (PyInt iv) \<or> to_dict m ''interval'' = None \<and> iv = 60"
    and "is_double (clock e k)" and "is_double lc" and "is_double (clock e k - lc)"
  shows "check_due (clock e k) m = Inr (clock e k - lc > real_of_int iv)
     \<and> ((m, k) \<in> set (filter (\<lambda>(m', i). check_due (clock e i) m' = Inr True)
                        (stamped 0 (enumerated (users_stream e))))
          \<longleftrightarrow> clock e k - lc > real_of_int iv)
     \<and> (scan_users (clock e) (0, []) (users_stream e) = Inr (n, due) \<longrightarrow>
          due = map fst (filter (\<lambda>(m', i). check_due (clock e i) m' = Inr True)
                        (stamped 0 (enumerated (users_stream e)))))
     \<and> (\<not> clock e k - lc > real_of_int iv \<and> reference m \<notin> set (probes w)
          \<and> reference m \<notin> reference ` set (take k (enumerated (users_stream e))
                @ drop (Suc k) (enumerated (users_stream e)))
          \<longrightarrow> reference m \<notin> set (probes (cycle e w)))"
proof -
  let ?ms = "enumerated (users_stream e)"
  let ?let = "\<lambda>(m', i). check_due (clock e i) m' = Inr True"
  note decision = check_due_fields [OF assms(3,4), of "clock e k"]
  from assms(1,2) have here: "(m, k) \<in> set (stamped 0 ?ms)" by (simp add: stamped_iff)
  with decision have through: "(m, k) \<in> set (filter ?let (stamped 0 ?ms))
      \<longleftrightarrow> clock e k - lc > real_of_int iv"
    by simp
  have handed: "due = map fst (filter ?let (stamped 0 ?ms))"
    if "scan_users (clock e) (0, []) (users_stream e) = Inr (n, due)"
    using scan_users_Inr [OF that] by (simp add: selected_def)
  have unprobed: "reference m \<notin> set (probes (cycle e w))"
    if not_due: "\<not> clock e k - lc > real_of_int iv" and fresh: "reference m \<notin> set (probes w)"
      and own: "reference m \<notin> reference ` set (take k ?ms @ drop (Suc k) ?ms)"
  proof
    assume "reference m \<in> set (probes (cycle e w))"
    with cycle_probes_selected [of e w] fresh
    have "reference m \<in> reference ` set (selected (clock e) 0 ?ms)" by blast
    then obtain m' j where sel: "(m', j) \<in> set (filter ?let (stamped 0 ?ms))"
      and same: "reference m' = reference m"
      by (auto simp: selected_def)
    from sel have j: "j < length ?ms" "?ms ! j = m'" and due': "check_due (clock e j) m' = Inr True"
      by (simp_all add: stamped_iff)
    show False
    proof (cases "j = k")
      case True
      with j(2) assms(2) have "m' = m" by simp
      with True due' decision not_due show False by simp
    next
      case False
      from nth_elsewhere [OF j(1) False] j(2)
      have "m' \<in> set (take k ?ms @ drop (Suc k) ?ms)" by simp
      then have "reference m' \<in> reference ` set (take k ?ms @ drop (Suc k) ?ms)"
        by (rule imageI)
      with same own show False by simp
    qed
  qed
  from decision through handed unprobed show ?thesis by blast
qed

theorem due_iff_elapsed_exceeds_interval_witness:
  "enumerated (users_stream (ex_env ex_users1 (\<lambda>r. Response 200)))
      = [ex_boundary, ex_overdue, ex_new, ex_slow]
   \<and> to_dict ex_boundary ''lastChecked'' = Some (PyInt 1761999940)
   \<and> to_dict ex_boundary ''interval'' = Some (PyInt 60)
   \<and> check_due (clock (ex_env ex_users1 (\<lambda>r. Response 200)) 0) ex_boundary = Inr False
   \<and> reference ex_boundary \<notin> set (probes (cycle (ex_env ex_users1 (\<lambda>r. Response 200))
        (ex_world [ex_boundary, ex_overdue, ex_new, ex_slow])))
   \<and> to_dict ex_slow ''lastChecked'' = Some (PyTimestamp 1761999800)
   \<and> to_dict ex_slow ''interval'' = Some (PyInt 300)
   \<and> check_due (clock (ex_env ex_users1 (\<lambda>r. Response 200)) 3) ex_slow = Inr False
   \<and> to_dict ex_overdue ''lastChecked'' = Some (PyTimestamp 1761999939)
   \<and> to_dict ex_overdue ''interval'' = Some (PyInt 60)
   \<and> check_due (clock (ex_env ex_users1 (\<lambda>r. Response 200)) 1) ex_overdue = Inr True
   \<and> scan_users (clock (ex_env ex_users1 (\<lambda>r. Response 200))) (0, [])
        (users_stream (ex_env ex_users1 (\<lambda>r. Response 200))) = Inr (4, [ex_overdue, ex_new])"
proof -
  let ?e = "ex_env ex_users1 (\<lambda>r. Response 200)"
  let ?w = "ex_world [ex_boundary, ex_overdue, ex_new, ex_slow]"
  have en: "enumerated (users_stream ?e) = [ex_boundary, ex_overdue, ex_new, ex_slow]"
    by (simp add: ex_env_facts ex_users1_enumerated)
  have d: "is_double (1762000000 :: real)" "is_double (1761999940 :: real)"
    "is_double (1761999939 :: real)" "is_double (1761999800 :: real)"
    "is_double (60 :: real)" "is_double (61 :: real)" "is_double (200 :: real)"
    using is_double_int [of 1762000000] is_double_int [of 1761999940]
      is_double_int [of 1761999939] is_double_int [of 1761999800]
      is_double_int [of 60] is_double_int [of 61] is_double_int [of 200]
    by simp_all
  have b: "check_due (clock ?e 0) ex_boundary = Inr False
      \<and> reference ex_boundary \<notin> set (probes (cycle ?e ?w))"
    using due_iff_elapsed_exceeds_interval [where e = ?e and k = 0 and m = ex_boundary
        and a = 1761999940 and lc = 1761999940 and iv = 60 and w = ?w] d
    by (simp add: ex_users1_enumerated ex_env_facts ex_world_facts ex_boundary_facts
        ex_overdue_facts ex_new_facts ex_slow_facts)
  have s: "check_due (clock ?e 3) ex_slow = Inr False"
    using due_iff_elapsed_exceeds_interval [where e = ?e and k = 3 and m = ex_slow
        and lc = 1761999800 and iv = 300 and w = ?w] d
    by (simp add: ex_users1_enumerated ex_env_facts ex_slow_facts)
  have o: "check_due (clock ?e 1) ex_overdue = Inr True"
    using due_iff_elapsed_exceeds_interval [where e = ?e and k = 1 and m = ex_overdue
        and lc = 1761999939 and iv = 60 and w = ?w] d
    by (simp add: ex_users1_enumerated ex_env_facts ex_overdue_facts ex_overdue_interval)
  from b s o en ex_users1_scan [of "\<lambda>r. Response 200"] show ?thesis
    by (simp add: ex_boundary_facts ex_slow_facts ex_overdue_facts ex_overdue_interval)
qed

text \<open>The claim as stated fails where the selection does not complete: \<open>ex_overdue\<close> is
  enumerated and 61 seconds have passed since its last check, more than its interval of 60,
  but its sibling has no \<open>lastChecked\<close>; line 52 raises for the sibling, no list is handed
  on and \<open>ex_overdue\<close> is not probed.\<close>

theorem selection_cut_short_counterexample:
  "enumerated (users_stream (ex_env ex_users_unset (\<lambda>r. Response 200))) ! 0 = ex_overdue
   \<and> to_dict ex_overdue ''lastChecked'' = Some (PyTimestamp 1761999939)
   \<and> to_dict ex_overdue ''interval'' = Some (PyInt 60)
   \<and> clock (ex_env ex_users_unset (\<lambda>r. Response 200)) 0 - 1761999939 > real_of_int 60
   \<and> scan_users (clock (ex_env ex_users_unset (\<lambda>r. Response 200))) (0, [])
        (users_stream (ex_env ex_users_unset (\<lambda>r. Response 200))) = Inl TypeError
   \<and> probes (cycle (ex_env ex_users_unset (\<lambda>r. Response 200))
        (ex_world [ex_overdue, ex_unset])) = []"
proof -
  let ?e = "ex_env ex_users_unset (\<lambda>r. Response 200)"
  have "probes (cycle ?e (ex_world [ex_overdue, ex_unset])) = []"
    using cycle_scan_raises [OF ex_users_unset_scan] by (simp add: ex_world_facts)
  moreover have "enumerated (users_stream ?e) ! 0 = ex_overdue"
    by (simp add: ex_env_facts ex_users_unset_def enumerated_def)
  moreover have "clock ?e 0 - 1761999939 > real_of_int 60"
    by (simp add: ex_env_facts)
  ultimately show ?thesis
    using ex_users_unset_scan [of "\<lambda>r. Response 200"] ex_overdue_facts(4) ex_overdue_interval
    by (intro conjI)
qed

subsection \<open>C2: monitors never checked\<close>

text \<open>
  Claim C2, amended.  A monitor whose \<open>lastChecked\<close> is the creation default 0 is marked due
  exactly when the current time exceeds its interval, hence at every current time later than
  \<open>interval\<close> seconds after the epoch; and a \<open>lastChecked\<close> that is a timestamp of the store
  is turned into epoch seconds before the comparison.
\<close>

theorem never_checked_due_after_interval:
  assumes "interval_of (to_dict m) = Inr iv"
  shows "(to_dict m ''lastChecked'' = Some (PyInt 0) \<longrightarrow>
            check_due now m = Inr (now > real_of_int iv))
     \<and> (to_dict m ''lastChecked'' = Some (PyTimestamp t) \<longrightarrow>
            check_due now m = Inr (now - t > real_of_int iv))"
  using assms
  by (simp add: check_due_def last_checked_of_def dict_get_def float_sub_def)

theorem never_checked_due_after_interval_witness:
  "interval_of (to_dict ex_new) = Inr 60 \<and> to_dict ex_new ''lastChecked'' = Some (PyInt 0)
   \<and> check_due 1762000000 ex_new = Inr True
   \<and> interval_of (to_dict ex_overdue) = Inr 60
   \<and> to_dict ex_overdue ''lastChecked'' = Some (PyTimestamp 1761999939)
   \<and> check_due 1762000000 ex_overdue = Inr True"
  using never_checked_due_after_interval [OF ex_new_facts(6), where now = 1762000000]
    never_checked_due_after_interval [OF ex_overdue_facts(5), where now = 1762000000
      and t = 1761999939]
  by (simp add: ex_new_facts ex_overdue_facts)

text \<open>The claim as stated fails twice.  At 1762000000 a monitor with \<open>lastChecked = 0\<close>
  and an interval of 2000000000 seconds is not due.  And for a monitor without
  \<open>lastChecked\<close> the default of line 48 is the marker \<^verbatim>\<open>SERVER_TIMESTAMP\<close>, which has no
  \<^verbatim>\<open>timestamp()\<close> and cannot be subtracted: line 52 raises \<^verbatim>\<open>TypeError\<close> and the cycle
  ends with nothing probed.\<close>

theorem never_checked_counterexample:
  "to_dict ex_far ''lastChecked'' = Some (PyInt 0)
   \<and> check_due 1762000000 ex_far = Inr False
   \<and> to_dict ex_unset ''lastChecked'' = None
   \<and> check_due 1762000000 ex_unset = Inl TypeError
   \<and> cycle (ex_env ex_users_unset (\<lambda>r. Response 200)) (ex_world [ex_overdue, ex_unset])
       = (ex_world [ex_overdue, ex_unset])\<lparr>log := [LoopError TypeError]\<rparr>"
proof -
  have "check_due 1762000000 ex_far = Inr False"
    by (simp add: check_due_def ex_far_def mk_monitor_def interval_of_def last_checked_of_def
      dict_get_def float_sub_def)
  moreover have "scan_users (clock (ex_env ex_users_unset (\<lambda>r. Response 200))) (0, [])
      (users_stream (ex_env ex_users_unset (\<lambda>r. Response 200))) = Inl TypeError"
    by (simp add: ex_env_facts ex_users_unset_def ex_overdue_due ex_unset_due)
  then have "cycle (ex_env ex_users_unset (\<lambda>r. Response 200)) (ex_world [ex_overdue, ex_unset])
       = (ex_world [ex_overdue, ex_unset])\<lparr>log := [LoopError TypeError]\<rparr>"
    by (simp add: cycle_def ex_world_facts)
  ultimately show ?thesis
    by (simp add: ex_unset_due) (simp add: ex_far_def ex_unset_def mk_monitor_def)
qed

subsection \<open>C3: classification of the probe\<close>

text \<open>
  Claim C3, amended.  For a due monitor with a URL whose document exists and whose write the
  store accepts: a response with a status from 200 to 399 is recorded as \<open>up\<close>; a response with
  a status from 400 to 599 and every \<^verbatim>\<open>requests.RequestException\<close> (refused connection,
  failed name resolution, timeout) are recorded as \<open>down\<close>; and in each of these cases the
  body of the loop raises nothing.
\<close>

theorem probe_classification:
  assumes "has_url m" and "documents w (reference m) = Some d"
    and "update_fault e (reference m) = None"
  shows "(requests_get e (reference m) (dict_get (to_dict m) ''url'' PyNone) = Response c
            \<and> 200 \<le> c \<and> c \<le> 399 \<longrightarrow> records_status e w m ''up'')
     \<and> (requests_get e (reference m) (dict_get (to_dict m) ''url'' PyNone) = Response c
            \<and> 400 \<le> c \<and> c \<le> 599 \<longrightarrow> records_status e w m ''down'')
     \<and> (requests_get e (reference m) (dict_get (to_dict m) ''url'' PyNone) = RequestException x
            \<longrightarrow> records_status e w m ''down'')"
proof (intro conjI impI)
  assume "requests_get e (reference m) (dict_get (to_dict m) ''url'' PyNone) = Response c
            \<and> 200 \<le> c \<and> c \<le> 399"
  then have "probe (requests_get e (reference m) (dict_get (to_dict m) ''url'' PyNone)) = Inr ''up''"
    by (simp add: probe_Response)
  from records_status_ok [OF assms(1) this assms(3) assms(2)]
  show "records_status e w m ''up''" by simp
next
  assume "requests_get e (reference m) (dict_get (to_dict m) ''url'' PyNone) = Response c
            \<and> 400 \<le> c \<and> c \<le> 599"
  then have "probe (requests_get e (reference m) (dict_get (to_dict m) ''url'' PyNone)) = Inr ''down''"
    by (simp add: probe_Response)
  from records_status_ok [OF assms(1) this assms(3) assms(2)]
  show "records_status e w m ''down''" by simp
next
  assume "requests_get e (reference m) (dict_get (to_dict m) ''url'' PyNone) = RequestException x"
  then have "probe (requests_get e (reference m) (dict_get (to_dict m) ''url'' PyNone)) = Inr ''down''"
    by (simp add: probe_RequestException)
  from records_status_ok [OF assms(1) this assms(3) assms(2)]
  show "records_status e w m ''down''" by simp
qed

theorem probe_classification_witness:
  "has_url ex_new \<and> documents (ex_world [ex_new]) (reference ex_new) = Some (to_dict ex_new)
   \<and> records_status (ex_net (Response 301)) (ex_world [ex_new]) ex_new ''up''
   \<and> records_status (ex_net (Response 503)) (ex_world [ex_new]) ex_new ''down''
   \<and> records_status (ex_net (RequestException Timeout)) (ex_world [ex_new]) ex_new ''down''"
proof -
  have d: "documents (ex_world [ex_new]) (reference ex_new) = Some (to_dict ex_new)"
    by (simp add: ex_world_facts store_of_Cons)
  note t = probe_classification [OF ex_new_facts(3) d]
  from t [of "ex_net (Response 301)" 301] have "records_status (ex_net (Response 301)) (ex_world [ex_new]) ex_new ''up''"
    by (simp add: ex_net_facts)
  moreover from t [of "ex_net (Response 503)" 503]
  have "records_status (ex_net (Response 503)) (ex_world [ex_new]) ex_new ''down''"
    by (simp add: ex_net_facts)
  moreover from t [of "ex_net (RequestException Timeout)" _ Timeout]
  have "records_status (ex_net (RequestException Timeout)) (ex_world [ex_new]) ex_new ''down''"
    by (simp add: ex_net_facts)
  ultimately show ?thesis using d ex_new_facts(3) by (intro conjI)
qed

text \<open>The claim as stated fails for a status of 600 or more: such a response is \<^verbatim>\<open>ok\<close>
  for the requests library, and the monitor is written \<open>up\<close>.\<close>

theorem status_999_counterexample:
  "has_url ex_new \<and> documents (ex_world [ex_new]) (reference ex_new) = Some (to_dict ex_new)
   \<and> requests_get (ex_net (Response 999)) (reference ex_new)
        (dict_get (to_dict ex_new) ''url'' PyNone) = Response 999
   \<and> (400 :: int) \<le> 999
   \<and> records_status (ex_net (Response 999)) (ex_world [ex_new]) ex_new ''up''
   \<and> \<not> records_status (ex_net (Response 999)) (ex_world [ex_new]) ex_new ''down''"
proof -
  have d: "documents (ex_world [ex_new]) (reference ex_new) = Some (to_dict ex_new)"
    by (simp add: ex_world_facts store_of_Cons)
  have p: "probe (requests_get (ex_net (Response 999)) (reference ex_new)
        (dict_get (to_dict ex_new) ''url'' PyNone)) = Inr ''up''"
    by (simp add: ex_net_facts probe_Response)
  note r = records_status_ok [OF ex_new_facts(3) p ex_net_facts(2) d]
  from r [of "''up''"] r [of "''down''"] d ex_new_facts(3) show ?thesis
    by (simp add: ex_net_facts)
qed

subsection \<open>C4: number of writes in a cycle\<close>

text \<open>
  Claim C4, amended.  In a cycle with \<open>N\<close> due monitors the loop probes and writes each of
  them at most once and performs at most \<open>N\<close> writes: the writes are, in order, those for the
  due monitors with a URL among the first \<open>j\<close>, where \<open>j = N\<close> when no exception leaves the
  body of the loop (then the writes are \<open>N\<close> less the number of due monitors without a URL)
  and where otherwise monitor \<open>j\<close> is the one at which the exception was raised.
\<close>

theorem writes_per_cycle:
  assumes "scan_users (clock e) (0, []) (users_stream e) = Inr (n, due)"
    and "dispatch e w due = (w', r)" and "writes w = []" and "probes w = []"
  shows "writes (cycle e w) = writes w' \<and> probes (cycle e w) = probes w'
     \<and> (\<exists>j \<le> length due.
           map fst (writes w') = map reference (filter has_url (take j due))
         \<and> probes w' = map reference (filter has_url (take (if r = None then j else Suc j) due))
         \<and> (r = None \<longrightarrow> j = length due)
         \<and> (r \<noteq> None \<longrightarrow> j < length due \<and> has_url (due ! j)))
     \<and> length (writes w') \<le> length due
     \<and> (r = None \<longrightarrow>
           length (writes w') + length (filter (\<lambda>m. \<not> has_url m) due) = length due)
     \<and> (distinct (map reference due) \<longrightarrow>
           distinct (map fst (writes w')) \<and> distinct (probes w'))"
proof -
  from cycle_dispatch [OF assms(1,2)]
  have c: "writes (cycle e w) = writes w'" "probes (cycle e w) = probes w'"
    by (simp_all split: option.splits)
  from dispatch_trace [OF assms(2)] assms(3,4) obtain j where j: "j \<le> length due"
      "r = None \<longrightarrow> j = length due" "r \<noteq> None \<longrightarrow> j < length due \<and> has_url (due ! j)"
      "map fst (writes w') = map reference (filter has_url (take j due))"
      "probes w' = map reference (filter has_url (take (if r = None then j else Suc j) due))"
    by auto
  from j(4) have "length (writes w') = length (filter has_url (take j due))"
    by (metis length_map)
  then have len: "length (writes w') \<le> length due"
    using length_filter_le [of has_url "take j due"] by simp
  have exact: "length (writes w') + length (filter (\<lambda>m. \<not> has_url m) due) = length due"
    if "r = None"
  proof -
    from that j(2) j(4) have "map fst (writes w') = map reference (filter has_url due)" by simp
    then have "length (writes w') = length (filter has_url due)" by (metis length_map)
    then show ?thesis by (simp add: sum_length_filter_compl)
  qed
  have once: "distinct (map fst (writes w')) \<and> distinct (probes w')"
    if "distinct (map reference due)"
    using that j(4,5) by (simp add: distinct_filter_take)
  from c j len exact once show ?thesis by blast
qed

theorem writes_per_cycle_witness:
  "scan_users (clock (ex_env ex_users2 (\<lambda>r. Response 200))) (0, [])
      (users_stream (ex_env ex_users2 (\<lambda>r. Response 200))) = Inr (2, [ex_new, ex_overdue])
   \<and> writes (cycle (ex_env ex_users2 (\<lambda>r. Response 200)) (ex_world [ex_overdue])) = []
   \<and> scan_users (clock (ex_env ex_users_no_url (\<lambda>r. Response 200))) (0, [])
      (users_stream (ex_env ex_users_no_url (\<lambda>r. Response 200))) = Inr (2, [ex_no_url, ex_overdue])
   \<and> length (writes (cycle (ex_env ex_users_no_url (\<lambda>r. Response 200))
        (ex_world [ex_no_url, ex_overdue]))) = 1"
proof -
  let ?e = "ex_env ex_users2 (\<lambda>r. Response 200)"
  let ?w = "ex_world [ex_overdue]"
  have d: "dispatch ?e ?w [ex_new, ex_overdue] = (?w\<lparr>probes := [reference ex_new]\<rparr>, Some NotFound)"
    by (simp add: ex_new_vanished)
  note t = writes_per_cycle [OF ex_users2_scan d ex_world_facts(2) ex_world_facts(1)]
  from t have "writes (cycle ?e ?w) = writes (?w\<lparr>probes := [reference ex_new]\<rparr>)"
    by (rule conjunct1)
  then have a: "writes (cycle ?e ?w) = []" by (simp add: ex_world_facts)
  let ?e' = "ex_env ex_users_no_url (\<lambda>r. Response 200)"
  let ?w' = "ex_world [ex_no_url, ex_overdue]"
  note u = writes_per_cycle [OF ex_users_no_url_scan ex_no_url_dispatch
      ex_world_facts(2) ex_world_facts(1)]
  from u have b: "length (writes (cycle ?e' ?w')) = 1" by simp
  from a b show ?thesis by (simp add: ex_users2_scan ex_users_no_url_scan)
qed

text \<open>The claim as stated fails: of two due monitors with a URL the first was deleted after
  the enumeration; the cycle performs no write at all, not \<open>2 - 1\<close>.\<close>

theorem writes_per_cycle_counterexample:
  "scan_users (clock (ex_env ex_users2 (\<lambda>r. Response 200))) (0, [])
      (users_stream (ex_env ex_users2 (\<lambda>r. Response 200))) = Inr (2, [ex_new, ex_overdue])
   \<and> has_url ex_new \<and> has_url ex_overdue
   \<and> documents (ex_world [ex_overdue]) (reference ex_new) = None
   \<and> documents (ex_world [ex_overdue]) (reference ex_overdue) = Some (to_dict ex_overdue)
   \<and> length (writes (cycle (ex_env ex_users2 (\<lambda>r. Response 200)) (ex_world [ex_overdue]))) = 0
   \<and> length (writes (cycle (ex_env ex_users2 (\<lambda>r. Response 200)) (ex_world [ex_overdue])))
       \<noteq> 2 - 1"
  by (simp add: ex_users2_scan ex_vanished_cycle ex_new_facts ex_overdue_facts ex_world_facts
      store_of_Cons store_of_Nil)

subsection \<open>C5: failing enumeration\<close>

text \<open>
  Claim C5.  When a stream of the enumeration raises, the cycle leaves the documents, the
  requests sent and the writes as they were and only logs the exception; the pass then
  sleeps 5 seconds and the loop goes on with its next pass.
\<close>

theorem failed_enumeration_writes_nothing:
  assumes "stream_fails (users_stream e)"
  shows "\<exists>x. cycle e w = w\<lparr>log := log w @ [LoopError x]\<rparr>
     \<and> pinger_worker True (e # es) w =
         pinger_worker True es (w\<lparr>log := log w @ [LoopError x], slept := slept w @ [5]\<rparr>)"
proof -
  from scan_users_fails [OF assms] obtain x
    where "scan_users (clock e) (0, []) (users_stream e) = Inl x" by blast
  then have "cycle e w = w\<lparr>log := log w @ [LoopError x]\<rparr>"
    by (simp add: cycle_def)
  then show ?thesis
    by (intro exI [of _ x]) (simp add: pinger_iteration_def)
qed

theorem failed_enumeration_writes_nothing_witness:
  "stream_fails (users_stream (ex_env ex_users_broken (\<lambda>r. Response 200)))
   \<and> writes (cycle (ex_env ex_users_broken (\<lambda>r. Response 200)) (ex_world [ex_overdue, ex_new])) = []
   \<and> probes (cycle (ex_env ex_users_broken (\<lambda>r. Response 200)) (ex_world [ex_overdue, ex_new])) = []
   \<and> slept (pinger_worker True [ex_env ex_users_broken (\<lambda>r. Response 200)]
        (ex_world [ex_overdue, ex_new])) = [5]"
proof -
  let ?e = "ex_env ex_users_broken (\<lambda>r. Response 200)"
  let ?w = "ex_world [ex_overdue, ex_new]"
  have h: "stream_fails (users_stream ?e)"
    by (simp add: ex_env_def ex_users_broken_def)
  from failed_enumeration_writes_nothing [OF h, where w = ?w and es = "[]"]
  obtain x where c: "cycle ?e ?w = ?w\<lparr>log := log ?w @ [LoopError x]\<rparr>"
    and p: "pinger_worker True [?e] ?w =
         pinger_worker True [] (?w\<lparr>log := log ?w @ [LoopError x], slept := slept ?w @ [5]\<rparr>)"
    by blast
  from c have "writes (cycle ?e ?w) = []" "probes (cycle ?e ?w) = []"
    by (simp_all add: ex_world_def)
  moreover from p have "slept (pinger_worker True [?e] ?w) = [5]"
    by (simp add: ex_world_def)
  ultimately show ?thesis using h by (intro conjI)
qed

subsection \<open>C6: monitor deleted before its write\<close>

text \<open>
  Claim C6, amended.  When the write for a due monitor fails because its document no longer
  exists, the exception is caught by the handler of the cycle and logged, the pass ends with
  its sleep of 5 seconds and the loop goes on with the next pass; that update is abandoned
  and so is the rest of the cycle: the world is left as it was when the write was tried, so
  the due monitors after this one are not probed and not written in this cycle.
\<close>

theorem vanished_monitor_ends_cycle:
  assumes "scan_users (clock e) (0, []) (users_stream e) = Inr (n, pre @ m # post)"
    and "dispatch e w pre = (w1, None)"
    and "has_url m"
    and "probe (requests_get e (reference m) (dict_get (to_dict m) ''url'' PyNone)) = Inr s"
    and "update_fault e (reference m) = None"
    and "documents w1 (reference m) = None"
  shows "cycle e w = w1\<lparr>probes := probes w1 @ [reference m], log := log w1 @ [LoopError NotFound]\<rparr>
     \<and> writes (cycle e w) = writes w1
     \<and> documents (cycle e w) = documents w1
     \<and> pinger_worker True (e # es) w =
         pinger_worker True es (w1\<lparr>probes := probes w1 @ [reference m],
           log := log w1 @ [LoopError NotFound], slept := slept w1 @ [5]\<rparr>)"
proof -
  from assms(5,6) have "update e (documents w1) (reference m) (status_fields s) = Inl NotFound"
    by (simp add: update_def)
  from ping_monitor_update_raises [OF assms(3,4) this]
  have "ping_monitor e w1 m = (w1\<lparr>probes := probes w1 @ [reference m]\<rparr>, Some NotFound)" .
  from dispatch_raises_at [OF assms(2) this]
  have "dispatch e w (pre @ m # post) = (w1\<lparr>probes := probes w1 @ [reference m]\<rparr>, Some NotFound)" .
  from cycle_dispatch [OF assms(1) this]
  have c: "cycle e w = w1\<lparr>probes := probes w1 @ [reference m], log := log w1 @ [LoopError NotFound]\<rparr>"
    by simp
  then show ?thesis by (simp add: pinger_iteration_def)
qed

theorem vanished_monitor_ends_cycle_witness:
  "scan_users (clock (ex_env ex_users2 (\<lambda>r. Response 200))) (0, [])
      (users_stream (ex_env ex_users2 (\<lambda>r. Response 200))) = Inr (2, [] @ ex_new # [ex_overdue])
   \<and> has_url ex_new
   \<and> documents (ex_world [ex_overdue]) (reference ex_new) = None
   \<and> writes (cycle (ex_env ex_users2 (\<lambda>r. Response 200)) (ex_world [ex_overdue])) = []
   \<and> slept (pinger_worker True [ex_env ex_users2 (\<lambda>r. Response 200)] (ex_world [ex_overdue])) = [5]"
proof -
  let ?e = "ex_env ex_users2 (\<lambda>r. Response 200)"
  let ?w = "ex_world [ex_overdue]"
  have sc: "scan_users (clock ?e) (0, []) (users_stream ?e) = Inr (2, [] @ ex_new # [ex_overdue])"
    by (simp add: ex_users2_scan)
  have d0: "dispatch ?e ?w [] = (?w, None)" by simp
  have p: "probe (requests_get ?e (reference ex_new)
      (dict_get (to_dict ex_new) ''url'' PyNone)) = Inr ''up''"
    by (simp add: ex_env_facts probe_Response)
  have nf: "documents ?w (reference ex_new) = None"
    by (simp add: ex_world_facts store_of_Cons store_of_Nil ex_new_facts ex_overdue_facts)
  note t = vanished_monitor_ends_cycle [OF sc d0 ex_new_facts(3) p ex_env_facts(4) nf,
      where es = "[]"]
  from t have "writes (cycle ?e ?w) = writes ?w"
    by (rule conjunct2 [THEN conjunct1])
  moreover from t have "pinger_worker True [?e] ?w =
         pinger_worker True [] (?w\<lparr>probes := probes ?w @ [reference ex_new],
           log := log ?w @ [LoopError NotFound], slept := slept ?w @ [5]\<rparr>)"
    by (rule conjunct2 [THEN conjunct2, THEN conjunct2])
  ultimately show ?thesis using sc nf ex_new_facts(3) by (simp add: ex_world_facts)
qed

text \<open>The claim as stated fails: the due monitor after the deleted one exists and has a URL,
  and it is neither probed nor written.\<close>

theorem vanished_monitor_counterexample:
  "scan_users (clock (ex_env ex_users2 (\<lambda>r. Response 200))) (0, [])
      (users_stream (ex_env ex_users2 (\<lambda>r. Response 200))) = Inr (2, [ex_new, ex_overdue])
   \<and> documents (ex_world [ex_overdue]) (reference ex_new) = None
   \<and> documents (ex_world [ex_overdue]) (reference ex_overdue) = Some (to_dict ex_overdue)
   \<and> has_url ex_overdue
   \<and> reference ex_overdue \<notin> set (probes (cycle (ex_env ex_users2 (\<lambda>r. Response 200))
        (ex_world [ex_overdue])))
   \<and> reference ex_overdue \<notin> fst ` set (writes (cycle (ex_env ex_users2 (\<lambda>r. Response 200))
        (ex_world [ex_overdue])))
   \<and> documents (cycle (ex_env ex_users2 (\<lambda>r. Response 200)) (ex_world [ex_overdue]))
        (reference ex_overdue) = Some (to_dict ex_overdue)"
  by (simp add: ex_users2_scan ex_vanished_cycle ex_new_facts ex_overdue_facts ex_world_facts
      store_of_Cons store_of_Nil)

subsection \<open>C7: malformed monitors\<close>

text \<open>
  Claim C7, amended.  A due monitor without a URL is passed over by the second loop without
  a request, a write, a log entry or an exception, so the monitors around it are processed
  as if it were not there.  A monitor whose interval does not convert to an integer makes
  the selection raise: the cycle ends there with the exception logged, nothing probed and
  nothing written, and the pass ends with its sleep of 5 seconds.
\<close>

theorem malformed_monitor:
  "(\<not> has_url m \<longrightarrow>
       ping_monitor e w m = (w, None)
     \<and> dispatch e w (pre @ m # post) = dispatch e w (pre @ post))
   \<and> (m \<in> set (enumerated (users_stream e)) \<and> interval_of (to_dict m) = Inl x \<longrightarrow>
       (\<exists>y. cycle e w = w\<lparr>log := log w @ [LoopError y]\<rparr>
          \<and> pinger_iteration True e w =
               w\<lparr>log := log w @ [LoopError y], slept := slept w @ [5]\<rparr>))"
proof (intro conjI impI)
  assume n: "\<not> has_url m"
  show "ping_monitor e w m = (w, None)" by (rule ping_monitor_no_url [OF n])
  show "dispatch e w (pre @ m # post) = dispatch e w (pre @ post)"
    by (simp add: dispatch_append ping_monitor_no_url [OF n] split: prod.splits option.splits)
next
  assume a: "m \<in> set (enumerated (users_stream e)) \<and> interval_of (to_dict m) = Inl x"
  then obtain y where "scan_users (clock e) (0, []) (users_stream e) = Inl y"
    using scan_users_bad_interval by blast
  from cycle_scan_raises [OF this]
  have "cycle e w = w\<lparr>log := log w @ [LoopError y]\<rparr>" .
  then show "\<exists>y. cycle e w = w\<lparr>log := log w @ [LoopError y]\<rparr>
          \<and> pinger_iteration True e w =
               w\<lparr>log := log w @ [LoopError y], slept := slept w @ [5]\<rparr>"
    by (intro exI [of _ y]) (simp add: pinger_iteration_def)
qed

theorem malformed_monitor_witness:
  "\<not> has_url ex_no_url
   \<and> dispatch (ex_env ex_users_no_url (\<lambda>r. Response 200)) (ex_world [ex_no_url, ex_overdue])
        ([] @ ex_no_url # [ex_overdue])
      = dispatch (ex_env ex_users_no_url (\<lambda>r. Response 200)) (ex_world [ex_no_url, ex_overdue])
        ([] @ [ex_overdue])
   \<and> ex_bad \<in> set (enumerated (users_stream (ex_env ex_users_bad (\<lambda>r. Response 200))))
   \<and> interval_of (to_dict ex_bad) = Inl ValueError
   \<and> probes (cycle (ex_env ex_users_bad (\<lambda>r. Response 200)) (ex_world [ex_bad, ex_overdue])) = []
   \<and> slept (pinger_iteration True (ex_env ex_users_bad (\<lambda>r. Response 200))
        (ex_world [ex_bad, ex_overdue])) = [5]"
proof -
  let ?e = "ex_env ex_users_bad (\<lambda>r. Response 200)"
  let ?w = "ex_world [ex_bad, ex_overdue]"
  note a = malformed_monitor [where m = ex_no_url and pre = "[]" and post = "[ex_overdue]"
      and e = "ex_env ex_users_no_url (\<lambda>r. Response 200)"
      and w = "ex_world [ex_no_url, ex_overdue]", THEN conjunct1, rule_format,
      OF ex_no_url_facts(2), THEN conjunct2]
  have en: "ex_bad \<in> set (enumerated (users_stream ?e))"
    by (simp add: ex_env_facts ex_users_bad_def enumerated_def)
  from en ex_bad_facts(1)
  have "ex_bad \<in> set (enumerated (users_stream ?e)) \<and> interval_of (to_dict ex_bad) = Inl ValueError"
    by (rule conjI)
  from malformed_monitor [where m = ex_bad and e = ?e and w = ?w and x = ValueError,
      THEN conjunct2, rule_format, OF this]
  obtain y where "cycle ?e ?w = ?w\<lparr>log := log ?w @ [LoopError y]\<rparr>"
    and "pinger_iteration True ?e ?w = ?w\<lparr>log := log ?w @ [LoopError y], slept := slept ?w @ [5]\<rparr>"
    by (elim exE conjE)
  then have "probes (cycle ?e ?w) = []" "slept (pinger_iteration True ?e ?w) = [5]"
    by (simp_all add: ex_world_facts)
  with a en ex_bad_facts(1) ex_no_url_facts(2) show ?thesis by (intro conjI)
qed

text \<open>The claim as stated fails twice.  With an interval \<^verbatim>\<open>'abc'\<close> on one monitor the cycle
  ends in the selection and the other monitor, which is due, is not probed.  And the due
  monitor without a URL leaves nothing in the log: the only entry is that of the other
  monitor.\<close>

theorem malformed_monitor_counterexample:
  "ex_bad \<in> set (enumerated ex_users_bad) \<and> ex_overdue \<in> set (enumerated ex_users_bad)
   \<and> interval_of (to_dict ex_bad) = Inl ValueError
   \<and> check_due 1762000000 ex_overdue = Inr True \<and> has_url ex_overdue
   \<and> cycle (ex_env ex_users_bad (\<lambda>r. Response 200)) (ex_world [ex_bad, ex_overdue])
        = (ex_world [ex_bad, ex_overdue])\<lparr>log := [LoopError ValueError]\<rparr>
   \<and> probes (cycle (ex_env ex_users_bad (\<lambda>r. Response 200)) (ex_world [ex_bad, ex_overdue])) = []
   \<and> ex_no_url \<in> set (enumerated ex_users_no_url) \<and> \<not> has_url ex_no_url
   \<and> log (cycle (ex_env ex_users_no_url (\<lambda>r. Response 200)) (ex_world [ex_no_url, ex_overdue]))
        = [Pinged (PyStr ''http://b.example'') ''up'']"
proof -
  have c: "cycle (ex_env ex_users_bad (\<lambda>r. Response 200)) (ex_world [ex_bad, ex_overdue])
        = (ex_world [ex_bad, ex_overdue])\<lparr>log := [LoopError ValueError]\<rparr>"
    using cycle_scan_raises [OF ex_users_bad_scan] by (simp add: ex_world_facts)
  have l: "log (cycle (ex_env ex_users_no_url (\<lambda>r. Response 200)) (ex_world [ex_no_url, ex_overdue]))
        = [Pinged (PyStr ''http://b.example'') ''up'']"
    using cycle_dispatch [OF ex_users_no_url_scan ex_no_url_dispatch] by simp
  have e: "ex_bad \<in> set (enumerated ex_users_bad)" "ex_overdue \<in> set (enumerated ex_users_bad)"
    "ex_no_url \<in> set (enumerated ex_users_no_url)"
    by (simp_all add: ex_users_bad_def ex_users_no_url_def enumerated_def)
  from c have p: "probes (cycle (ex_env ex_users_bad (\<lambda>r. Response 200))
      (ex_world [ex_bad, ex_overdue])) = []"
    by (simp add: ex_world_facts)
  from c l e p ex_bad_facts(1) ex_overdue_due ex_overdue_facts(3) ex_no_url_facts(2)
  show ?thesis by (intro conjI)
qed

subsection \<open>C8: what the worker writes\<close>

text \<open>
  Claim C8.  Over any number of passes of the loop, a document that exists at the start
  still exists and differs at most in \<open>status\<close> and \<open>lastChecked\<close>; its status is
  the old one, \<open>up\<close> or \<open>down\<close>, so a status other than \<open>pending\<close> never becomes
  \<open>pending\<close>; and every payload the worker sends has exactly the two fields
  \<open>status\<close> and \<open>lastChecked\<close>, the status being \<open>up\<close> or \<open>down\<close>.
\<close>

theorem core_writes_status_and_lastChecked_only:
  assumes "documents w r = Some d"
  shows "\<exists>d' new. documents (pinger_worker db es w) r = Some d'
     \<and> (k \<noteq> ''status'' \<and> k \<noteq> ''lastChecked'' \<longrightarrow> d' k = d k)
     \<and> (d' ''status'' = d ''status'' \<or> d' ''status'' = Some (PyStr ''up'')
          \<or> d' ''status'' = Some (PyStr ''down''))
     \<and> (d ''status'' \<noteq> Some (PyStr ''pending'') \<longrightarrow> d' ''status'' \<noteq> Some (PyStr ''pending''))
     \<and> writes (pinger_worker db es w) = writes w @ new
     \<and> (\<forall>(r', payload) \<in> set new. dom payload = {''status'', ''lastChecked''}
          \<and> (payload ''status'' = Some (PyStr ''up'') \<or> payload ''status'' = Some (PyStr ''down'')))"
proof -
  note osw = pinger_worker_only_status [of w db es, unfolded only_status_written_def]
  from osw have "\<forall>r d. documents w r = Some d \<longrightarrow>
      (\<exists>d'. documents (pinger_worker db es w) r = Some d' \<and> doc_evolves d d')"
    by (rule conjunct1)
  from this [rule_format, OF assms]
  obtain d' where d': "documents (pinger_worker db es w) r = Some d'" "doc_evolves d d'"
    by (elim exE conjE)
  from osw have "\<exists>new. writes (pinger_worker db es w) = writes w @ new
      \<and> (\<forall>u \<in> set new. status_payload u)"
    by (rule conjunct2)
  then obtain new where new: "writes (pinger_worker db es w) = writes w @ new"
      "\<forall>u \<in> set new. status_payload u"
    by (elim exE conjE)
  from d'(2) have k: "k \<noteq> ''status'' \<and> k \<noteq> ''lastChecked'' \<longrightarrow> d' k = d k"
    by (simp add: doc_evolves_def)
  from d'(2) have st: "d' ''status'' = d ''status'' \<or> d' ''status'' = Some (PyStr ''up'')
          \<or> d' ''status'' = Some (PyStr ''down'')"
    by (simp add: doc_evolves_def)
  have np: "d ''status'' \<noteq> Some (PyStr ''pending'') \<longrightarrow> d' ''status'' \<noteq> Some (PyStr ''pending'')"
  proof
    assume "d ''status'' \<noteq> Some (PyStr ''pending'')"
    with st show "d' ''status'' \<noteq> Some (PyStr ''pending'')"
      by (elim disjE) simp_all
  qed
  have pl: "\<forall>(r', payload) \<in> set new. dom payload = {''status'', ''lastChecked''}
          \<and> (payload ''status'' = Some (PyStr ''up'') \<or> payload ''status'' = Some (PyStr ''down''))"
  proof (clarify)
    fix r' payload assume "(r', payload) \<in> set new"
    with new(2) have "status_payload (r', payload)" by (rule bspec)
    then show "dom payload = {''status'', ''lastChecked''}
          \<and> (payload ''status'' = Some (PyStr ''up'') \<or> payload ''status'' = Some (PyStr ''down''))"
      by (simp add: status_payload_def)
  qed
  show ?thesis
    by (rule exI [of _ d'], rule exI [of _ new]) (intro conjI d'(1) k st np new(1) pl)
qed

theorem core_writes_status_and_lastChecked_only_witness:
  "documents (ex_world [ex_new]) (reference ex_new) = Some (to_dict ex_new)
   \<and> (\<exists>d'. documents (pinger_worker True [ex_env ex_users_new (\<lambda>r. Response 200)]
               (ex_world [ex_new])) (reference ex_new) = Some d'
          \<and> d' ''name'' = Some (PyStr ''c''))"
proof -
  have h: "documents (ex_world [ex_new]) (reference ex_new) = Some (to_dict ex_new)"
    by (simp add: ex_world_facts store_of_Cons)
  from core_writes_status_and_lastChecked_only [OF h, where k = "''name''" and db = True
      and es = "[ex_env ex_users_new (\<lambda>r. Response 200)]"]
  obtain d' where "documents (pinger_worker True [ex_env ex_users_new (\<lambda>r. Response 200)]
               (ex_world [ex_new])) (reference ex_new) = Some d'"
    and "''name'' \<noteq> ''status'' \<and> ''name'' \<noteq> ''lastChecked'' \<longrightarrow> d' ''name'' = to_dict ex_new ''name''"
    by (elim exE conjE)
  then show ?thesis using h by (simp add: ex_new_facts)
qed

subsection \<open>C9: the sleeps\<close>


subsection \<open>C10: what a cut-short cycle leaves\<close>

text \<open>
  Claim C10, amended.  When the body of the second loop raises at a due monitor (the probe
  lets an exception other than a \<^verbatim>\<open>requests.RequestException\<close> escape, or the write raises),
  every due monitor after it in the list, with a reference of its own, is neither probed nor
  written in this cycle; its stored document is what it was before the cycle; and as it was
  due at the clock reading made for it, it is due at every later time too.
\<close>

theorem cut_short_cycle_leaves_rest:
  assumes "scan_users (clock e) (0, []) (users_stream e) = Inr (n, pre @ m # post)"
    and "dispatch e w pre = (w1, None)" and "ping_monitor e w1 m = (w2, Some x)"
    and "m' \<in> set post" and "reference m' \<notin> reference ` set (pre @ [m])"
    and "probes w = []" and "writes w = []"
  shows "reference m' \<notin> set (probes (cycle e w))
     \<and> reference m' \<notin> fst ` set (writes (cycle e w))
     \<and> documents (cycle e w) (reference m') = documents w (reference m')
     \<and> (\<exists>k. check_due (clock e k) m' = Inr True
           \<and> (\<forall>now'. clock e k \<le> now' \<longrightarrow> check_due now' m' = Inr True))"
proof -
  from ping_monitor_cases [OF assms(3)]
  have w2: "w2 = w1\<lparr>probes := probes w1 @ [reference m]\<rparr>" by auto
  from dispatch_raises_at [OF assms(2,3)]
  have "dispatch e w (pre @ m # post) = (w2, Some x)" .
  from cycle_dispatch [OF assms(1) this]
  have c: "cycle e w = w2\<lparr>log := log w2 @ [LoopError x]\<rparr>" by simp
  from dispatch_trace [OF assms(2)] assms(6,7)
  have tr: "map fst (writes w1) = map reference (filter has_url pre)"
    "probes w1 = map reference (filter has_url pre)"
    by auto
  from assms(5) have nr: "reference m' \<notin> reference ` set pre" "reference m' \<noteq> reference m"
    by auto
  from nr(1) have nf: "reference m' \<notin> set (map reference (filter has_url pre))" by auto
  from c w2 tr(2) nf nr(2) have p: "reference m' \<notin> set (probes (cycle e w))" by simp
  from nf tr(1) have "reference m' \<notin> set (map fst (writes w1))" by simp
  with c w2 have wr: "reference m' \<notin> fst ` set (writes (cycle e w))" by simp
  from dispatch_untouched [OF assms(2) nr(1)] c w2
  have d: "documents (cycle e w) (reference m') = documents w (reference m')" by simp
  from scan_users_Inr [OF assms(1)]
  have "selected (clock e) 0 (enumerated (users_stream e)) = pre @ m # post" by simp
  with assms(4) have "m' \<in> set (selected (clock e) 0 (enumerated (users_stream e)))" by simp
  from in_selected [OF this] obtain k where k: "check_due (clock e k) m' = Inr True" ..
  have "\<forall>now'. clock e k \<le> now' \<longrightarrow> check_due now' m' = Inr True"
    using check_due_later [OF k] by blast
  with k have "\<exists>k. check_due (clock e k) m' = Inr True
           \<and> (\<forall>now'. clock e k \<le> now' \<longrightarrow> check_due now' m' = Inr True)"
    by blast
  with p wr d show ?thesis by (intro conjI)
qed

theorem cut_short_cycle_leaves_rest_witness:
  "scan_users (clock (ex_env ex_users2 ex_crash_first)) (0, [])
      (users_stream (ex_env ex_users2 ex_crash_first)) = Inr (2, [] @ ex_new # [ex_overdue])
   \<and> ping_monitor (ex_env ex_users2 ex_crash_first) (ex_world [ex_new, ex_overdue]) ex_new
        = ((ex_world [ex_new, ex_overdue])\<lparr>probes := [reference ex_new]\<rparr>, Some OtherError)
   \<and> reference ex_overdue \<notin> set (probes (cycle (ex_env ex_users2 ex_crash_first)
        (ex_world [ex_new, ex_overdue])))
   \<and> documents (cycle (ex_env ex_users2 ex_crash_first) (ex_world [ex_new, ex_overdue]))
        (reference ex_overdue) = Some (to_dict ex_overdue)
   \<and> check_due 1762000060 ex_overdue = Inr True"
proof -
  let ?e = "ex_env ex_users2 ex_crash_first"
  let ?w = "ex_world [ex_new, ex_overdue]"
  have sc: "scan_users (clock ?e) (0, []) (users_stream ?e) = Inr (2, [] @ ex_new # [ex_overdue])"
    by (simp add: ex_users2_scan)
  have d0: "dispatch ?e ?w [] = (?w, None)" by simp
  have pm: "ping_monitor ?e ?w ex_new = (?w\<lparr>probes := [reference ex_new]\<rparr>, Some OtherError)"
    by (simp add: ex_new_crash ex_world_facts)
  have mem: "ex_overdue \<in> set [ex_overdue]" by simp
  have fresh: "reference ex_overdue \<notin> reference ` set ([] @ [ex_new])"
    by (simp add: ex_new_facts ex_overdue_facts)
  note t = cut_short_cycle_leaves_rest [OF sc d0 pm mem fresh ex_world_facts(1) ex_world_facts(2)]
  from t have a: "reference ex_overdue \<notin> set (probes (cycle ?e ?w))"
    by (rule conjunct1)
  from t have "documents (cycle ?e ?w) (reference ex_overdue) = documents ?w (reference ex_overdue)"
    by (rule conjunct2 [THEN conjunct2, THEN conjunct1])
  then have b: "documents (cycle ?e ?w) (reference ex_overdue) = Some (to_dict ex_overdue)"
    by (simp add: ex_world_facts store_of_Cons ex_new_facts ex_overdue_facts)
  from t obtain k where "\<forall>now'. clock ?e k \<le> now' \<longrightarrow> check_due now' ex_overdue = Inr True"
    by (elim conjE exE)
  then have "clock ?e k \<le> 1762000060 \<longrightarrow> check_due 1762000060 ex_overdue = Inr True"
    by (rule spec)
  then have c: "check_due 1762000060 ex_overdue = Inr True"
    by (simp add: ex_env_facts)
  from sc pm a b c show ?thesis by (intro conjI)
qed

text \<open>The claim as stated fails for the exceptions that the inner handler catches: the probe
  of the first monitor times out, and the second one is probed and written all the same.\<close>

theorem request_exception_counterexample:
  "scan_users (clock (ex_env ex_users2 ex_timeout_first)) (0, [])
      (users_stream (ex_env ex_users2 ex_timeout_first)) = Inr (2, [ex_new, ex_overdue])
   \<and> requests_get (ex_env ex_users2 ex_timeout_first) (reference ex_new)
        (dict_get (to_dict ex_new) ''url'' PyNone) = RequestException Timeout
   \<and> probes (cycle (ex_env ex_users2 ex_timeout_first) (ex_world [ex_new, ex_overdue]))
        = [reference ex_new, reference ex_overdue]
   \<and> writes (cycle (ex_env ex_users2 ex_timeout_first) (ex_world [ex_new, ex_overdue]))
        = [(reference ex_new, status_fields ''down''), (reference ex_overdue, status_fields ''up'')]"
proof -
  let ?e = "ex_env ex_users2 ex_timeout_first"
  let ?w = "ex_world [ex_new, ex_overdue]"
  have d1: "documents ?w (reference ex_new) = Some (to_dict ex_new)"
    by (simp add: ex_world_facts store_of_Cons)
  note s1 = ex_new_timeout [OF d1, of ex_users2]
  let ?w1 = "fst (ping_monitor ?e ?w ex_new)"
  have d2: "documents ?w1 (reference ex_overdue) = Some (to_dict ex_overdue)"
    by (simp add: s1 ex_world_facts store_of_Cons ex_new_facts ex_overdue_facts)
  have n2: "ex_timeout_first (''alice'', ''m2'') = Response 200"
    by (simp add: ex_timeout_first_def)
  note s2 = ex_overdue_ok [where net = ex_timeout_first and us = ex_users2, OF d2 n2]
  have "dispatch ?e ?w [ex_new, ex_overdue] = (fst (ping_monitor ?e ?w1 ex_overdue), None)"
    using s2 by (simp add: s1)
  from cycle_dispatch [OF ex_users2_scan this]
  have c: "cycle ?e ?w = fst (ping_monitor ?e ?w1 ex_overdue)" by simp
  have "probes (cycle ?e ?w) = [reference ex_new, reference ex_overdue]"
    unfolding c by (simp add: s2) (simp add: s1 ex_world_facts)
  moreover have "writes (cycle ?e ?w)
        = [(reference ex_new, status_fields ''down''), (reference ex_overdue, status_fields ''up'')]"
    unfolding c by (simp add: s2) (simp add: s1 ex_world_facts)
  moreover have "requests_get ?e (reference ex_new)
        (dict_get (to_dict ex_new) ''url'' PyNone) = RequestException Timeout"
    by (simp add: ex_env_facts ex_new_facts ex_timeout_first_def)
  ultimately show ?thesis using ex_users2_scan by (intro conjI)
qed

end
